theory Spec2Isabelle
  imports Main "HOL-Library.AList"
begin

text \<open>
  The handler of vim-ultest (\<open>rplugin/python3/ultest/handler/__init__.py\<close>) keeps
  the tests known for each file, compares a new scan of a file with the tests it has
  recorded, runs tests and registers their results. This theory embeds the handler as
  functions on an explicit handler state and proves the properties C1 to C10 of its
  reconciliation pass, its run dispatch and its handling of results.
\<close>

section \<open>Data model\<close>

text \<open>
  The dataclass \<open>Test\<close> of \<open>models/test.py\<close>. Its fields are prefixed with \<open>t_\<close>
  (\<open>id\<close> is a constant of HOL, and \<open>Result\<close> has fields of the same names).
  The field \<open>running\<close> is an \<open>int\<close> in the source; Python's \<open>True\<close> and \<open>False\<close>
  are the integers 1 and 0.
\<close>

record test =
  t_id :: string
  t_name :: string
  t_file :: string
  t_line :: int
  t_col :: int
  t_running :: int

text \<open>
  Modelled from the spec: the class \<open>Result\<close> (\<open>models/result.py\<close> is not among the
  sources). The handler builds it as \<open>Result(id=, file=, code=, output=)\<close>; the spec
  gives it an exit status code and the captured output text, keyed by id and file.
\<close>

record result =
  r_id :: string
  r_file :: string
  r_code :: int
  r_output :: string

datatype error = TypeError | IndexError | VimError | BadFieldType

text \<open>
  A payload of the editor is a dict from field names to strings and integers, here an
  association list read with \<open>map_of\<close>. \<open>Test(**test_dict)\<close> raises \<open>TypeError\<close>
  unless the keys are exactly the six fields. The dataclass does not check the types of
  the values; a payload whose values do not have the annotated types is outside this
  model and is reported as \<open>BadFieldType\<close>.
\<close>

datatype pyval = PStr string | PInt int

type_synonym test_dict = "(string \<times> pyval) list"

definition test_fields :: "string list" where
  "test_fields = [''id'', ''name'', ''file'', ''line'', ''col'', ''running'']"

definition Test :: "test_dict \<Rightarrow> error + test" where
  "Test d =
     (if set (map fst d) \<noteq> set test_fields then Inl TypeError
      else case (map_of d ''id'', map_of d ''name'', map_of d ''file'',
                 map_of d ''line'', map_of d ''col'', map_of d ''running'') of
          (Some (PStr i), Some (PStr n), Some (PStr f), Some (PInt l), Some (PInt c), Some (PInt r)) \<Rightarrow>
             Inr \<lparr>t_id = i, t_name = n, t_file = f, t_line = l, t_col = c, t_running = r\<rparr>
        | _ \<Rightarrow> Inl BadFieldType)"

type_synonym patterns = "(string \<times> string list) list"

text \<open>
  The work the handler hands to the editor client: coroutines given to \<open>launch\<close> and
  callables given to \<open>schedule\<close>. The two closures \<open>run_after_update\<close> are the
  constructors of \<open>callback\<close>; \<open>Runner\<close> is the coroutine \<open>runner()\<close> of
  \<open>update_positions\<close> with the variables it closes over (the file name, the patterns,
  \<open>recorded_tests\<close> and the callback); \<open>Run\<close> is the coroutine \<open>run()\<close> of
  \<open>_run_tests\<close> with the command, the test and the working directory.
  \<open>recorded_tests\<close> is a Python dict, which keeps insertion order: an association
  list with distinct keys.

  The values of \<open>recorded_tests\<close> are the objects of the snapshot list themselves,
  not copies: while \<open>runner()\<close> waits, \<open>_run_tests\<close> may set \<open>running\<close> on them.
  \<open>Runner\<close> therefore carries, with the value of each recorded test, its position in
  the snapshot list it was taken from (\<open>Some positions\<close>), for as long as that list is
  the snapshot of the file; once a pass has stored a new list for the file, the
  recorded objects are no longer in the snapshot (\<open>None\<close>).
\<close>

datatype callback = RunAllAfterUpdate string | RunNearestAfterUpdate int string

datatype scheduled =
    SRunAll string bool
  | SRunNearest int string bool
  | SPresentOutput result

datatype coroutine =
    Runner string patterns "(string \<times> test) list" "callback option" "nat list option"
  | Run "string list" test "string option"

datatype work = Launched coroutine string | Scheduled scheduled

text \<open>
  Every use of the editor client \<open>self._vim\<close> that has an effect, in the order of the
  calls: the notifications sent with \<open>call\<close> and \<open>command\<close>, the opening of the
  output, and \<open>launch\<close>, \<open>schedule\<close> and \<open>stop\<close>. Logging is not modelled.
\<close>

datatype vim_call =
    ProcessStart test
  | ProcessExit test result
  | ProcessMove test
  | ProcessReplace test result
  | ProcessNew test
  | ProcessClear test
  | StoreSortedIds string "string list"
  | SetBufVarResults string
  | SetBufVarTests string
  | SetBufVarSortedTests string
  | PositionsUpdate
  | OutputOpen result
  | Launch coroutine string
  | Schedule scheduled
  | Stop string

text \<open>
  What the handler reads from its surroundings, as functions: the file system, the
  synchronous calls into the editor (\<open>sync_call\<close>), the test finder and the process
  manager. \<open>get_patterns\<close> is \<open>Inl\<close> when the call raises; \<open>None\<close> and the
  empty patterns are the answers that are false in a condition. The finder's
  \<open>get_nearest_from\<close> returns one of the objects of the list it is given, or None; the
  object is named by its position in the list. \<open>getbufinfo\<close> gives the \<open>lnum\<close> of
  each buffer entry the editor returns.
\<close>

record env =
  isfile :: "string \<Rightarrow> bool"
  get_patterns :: "string \<Rightarrow> error + patterns option"
  find_all :: "string \<Rightarrow> patterns \<Rightarrow> test list"
  get_nearest_from :: "int \<Rightarrow> test list \<Rightarrow> bool \<Rightarrow> nat option"
  is_running :: "string \<Rightarrow> bool"
  project_root :: "string option"
  build_cmd :: "test \<Rightarrow> string list"
  proc_run :: "string list \<Rightarrow> test \<Rightarrow> string option \<Rightarrow> result"
  expand_current :: string
  getbufinfo :: "string \<Rightarrow> int list"

text \<open>
  The state of a \<open>Handler\<close>: \<open>_stored_tests\<close> and \<open>_show_on_run\<close>, and the state of
  its collaborators as far as the handler writes it.

  Modelled from the spec: \<open>ResultStore\<close> (\<open>handler/results.py\<close> is not among the
  sources) is a per-file mapping from test identity to the last known result, with
  \<open>add(file, result)\<close> and \<open>get(file, id)\<close>; \<open>ProcessManager\<close>
  (\<open>handler/processes.py\<close>) keeps a live-output buffer per test id, written by
  \<open>register_external_output\<close> and removed by \<open>clear_external_output\<close>, and is told
  of every started test by \<open>register_new_test\<close>; \<open>VimClient\<close> (\<open>vim_client.py\<close>)
  runs launched coroutines as tasks named by a job id, defers scheduled callables to a
  later turn of the loop, and \<open>stop\<close> cancels the tasks of one job id.
\<close>

record handler =
  stored_tests :: "string \<rightharpoonup> test list"
  show_on_run :: bool
  results :: "string \<Rightarrow> string \<rightharpoonup> result"
  external_outputs :: "string \<rightharpoonup> string"
  registered :: "test list"
  vim_log :: "vim_call list"
  pending :: "work list"

section \<open>Collaborators\<close>

definition call :: "vim_call \<Rightarrow> handler \<Rightarrow> handler" where
  "call c s = s\<lparr>vim_log := vim_log s @ [c]\<rparr>"

definition launch :: "coroutine \<Rightarrow> string \<Rightarrow> handler \<Rightarrow> handler" where
  "launch c job s = s\<lparr>vim_log := vim_log s @ [Launch c job], pending := pending s @ [Launched c job]\<rparr>"

definition schedule :: "scheduled \<Rightarrow> handler \<Rightarrow> handler" where
  "schedule d s = s\<lparr>vim_log := vim_log s @ [Schedule d], pending := pending s @ [Scheduled d]\<rparr>"

fun launched_as :: "string \<Rightarrow> work \<Rightarrow> bool" where
  "launched_as job (Launched c j) = (j = job)"
| "launched_as job (Scheduled d) = False"

definition stop :: "string \<Rightarrow> handler \<Rightarrow> handler" where
  "stop job s = s\<lparr>vim_log := vim_log s @ [Stop job],
                  pending := filter (\<lambda>w. \<not> launched_as job w) (pending s)\<rparr>"

definition results_add :: "string \<Rightarrow> result \<Rightarrow> handler \<Rightarrow> handler" where
  "results_add file r s = s\<lparr>results := (results s)(file := (results s file)(r_id r \<mapsto> r))\<rparr>"

definition results_get :: "handler \<Rightarrow> string \<Rightarrow> string \<Rightarrow> result option" where
  "results_get s file i = results s file i"

definition register_new_test :: "test \<Rightarrow> handler \<Rightarrow> handler" where
  "register_new_test t s = s\<lparr>registered := registered s @ [t]\<rparr>"

definition register_external_output :: "string \<Rightarrow> string \<Rightarrow> handler \<Rightarrow> handler" where
  "register_external_output i out s = s\<lparr>external_outputs := (external_outputs s)(i \<mapsto> out)\<rparr>"

definition clear_external_output :: "string \<Rightarrow> handler \<Rightarrow> handler" where
  "clear_external_output i s = s\<lparr>external_outputs := (external_outputs s)(i := None)\<rparr>"

section \<open>The handler\<close>

text \<open>\<open>self._stored_tests.get(file_name, [])\<close>\<close>

definition stored_get :: "handler \<Rightarrow> string \<Rightarrow> test list" where
  "stored_get s file_name = (case stored_tests s file_name of None \<Rightarrow> [] | Some ts \<Rightarrow> ts)"

text \<open>
  \<open>_register_started\<close> sets \<open>running\<close> on the object it is given and returns nothing;
  the model returns the test as it is after the assignment.
\<close>

definition register_started :: "test \<Rightarrow> handler \<Rightarrow> test \<times> handler" where
  "register_started t s =
     (let t' = t\<lparr>t_running := 1\<rparr>
      in (t', call (ProcessStart t') (register_new_test t' s)))"

definition register_result :: "test \<Rightarrow> result \<Rightarrow> handler \<Rightarrow> handler" where
  "register_result t r s =
     (let s1 = results_add (r_file r) r s;
          s2 = call (ProcessExit t r) s1
      in if show_on_run s2 \<and> r_output r \<noteq> [] then schedule (SPresentOutput r) s2 else s2)"

definition nearest_index :: "env \<Rightarrow> int \<Rightarrow> test list \<Rightarrow> bool \<Rightarrow> nat option" where
  "nearest_index e ln ts strict =
     (case get_nearest_from e ln ts strict of
        None \<Rightarrow> None
      | Some i \<Rightarrow> if i < length ts then Some i else None)"

definition get_nearest_test :: "env \<Rightarrow> int \<Rightarrow> string \<Rightarrow> bool \<Rightarrow> handler \<Rightarrow> test option" where
  "get_nearest_test e ln file_name strict s =
     (let tests = stored_get s file_name
      in map_option (\<lambda>i. tests ! i) (nearest_index e ln tests strict))"

definition present_output :: "env \<Rightarrow> result \<Rightarrow> handler \<Rightarrow> error + handler" where
  "present_output e r s =
     (if r_code r \<noteq> 0 \<and> expand_current e = r_file r then
        (case getbufinfo e (r_file r) of
           [] \<Rightarrow> Inl IndexError
         | ln # _ \<Rightarrow>
            (case get_nearest_test e ln (r_file r) False s of
               None \<Rightarrow> Inr s
             | Some nearest \<Rightarrow>
                 if t_id nearest = r_id r then Inr (call (OutputOpen r) s) else Inr s))
      else Inr s)"

definition external_start :: "test_dict \<Rightarrow> string \<Rightarrow> handler \<Rightarrow> error + handler" where
  "external_start test_dict stdout s =
     (case Test test_dict of
        Inl err \<Rightarrow> Inl err
      | Inr t \<Rightarrow>
          (let (t', s1) = register_started t s
           in Inr (if stdout \<noteq> [] then register_external_output (t_id t') stdout s1 else s1)))"

definition external_result :: "test_dict \<Rightarrow> int \<Rightarrow> string \<Rightarrow> handler \<Rightarrow> error + handler" where
  "external_result test_dict exit_code stdout s =
     (case Test test_dict of
        Inl err \<Rightarrow> Inl err
      | Inr t \<Rightarrow>
          (let r = \<lparr>r_id = t_id t, r_file = t_file t, r_code = exit_code, r_output = stdout\<rparr>;
               s1 = clear_external_output (t_id t) s
           in Inr (register_result t r s1)))"

text \<open>
  \<open>_run_tests\<close> is only called with objects of the snapshot of \<open>file_name\<close>, so the
  assignment \<open>test.running = 1\<close> of \<open>_register_started\<close> is seen in the snapshot, and
  in the \<open>recorded_tests\<close> of every \<open>runner()\<close> that waits with objects of that
  snapshot. The model passes each test with its position in
  \<open>_stored_tests[file_name]\<close>, writes the changed test back at that position
  and, with \<open>sync_started\<close>, into the recorded tests taken from that position.
\<close>

fun mark_started :: "nat \<Rightarrow> test \<Rightarrow> (string \<times> test) list \<Rightarrow> nat list \<Rightarrow> (string \<times> test) list" where
  "mark_started i t' [] ps = []"
| "mark_started i t' (kt # recorded) [] = kt # recorded"
| "mark_started i t' ((k, t) # recorded) (j # ps) =
     (if j = i then (k, t') else (k, t)) # mark_started i t' recorded ps"

fun sync_started :: "string \<Rightarrow> nat \<Rightarrow> test \<Rightarrow> work \<Rightarrow> work" where
  "sync_started file_name i t' (Launched (Runner f vim_patterns recorded cb (Some ps)) job) =
     (if f = file_name
      then Launched (Runner f vim_patterns (mark_started i t' recorded ps) cb (Some ps)) job
      else Launched (Runner f vim_patterns recorded cb (Some ps)) job)"
| "sync_started file_name i t' w = w"

fun run_tests_loop :: "env \<Rightarrow> string \<Rightarrow> string option \<Rightarrow> (nat \<times> test) list \<Rightarrow> handler \<Rightarrow> handler" where
  "run_tests_loop e file_name root [] s = s"
| "run_tests_loop e file_name root ((i, t) # rest) s =
     (let (t', s1) = register_started t s;
          s2 = s1\<lparr>stored_tests := (stored_tests s1)(file_name \<mapsto> (stored_get s1 file_name)[i := t']),
                  pending := map (sync_started file_name i t') (pending s1)\<rparr>;
          cmd = build_cmd e t';
          s3 = launch (Run cmd t' root) (t_id t') s2
      in run_tests_loop e file_name root rest s3)"

definition run_tests :: "env \<Rightarrow> string \<Rightarrow> (nat \<times> test) list \<Rightarrow> handler \<Rightarrow> handler" where
  "run_tests e file_name tests s = run_tests_loop e file_name (project_root e) tests s"

text \<open>
  The dict comprehension that builds \<open>recorded_tests\<close>: a later test with the same id
  replaces the value and keeps the position of the key.
\<close>

definition recorded_tests :: "test list \<Rightarrow> (string \<times> test) list" where
  "recorded_tests ts = foldl (\<lambda>d t. AList.update (t_id t) t d) [] ts"

text \<open>
  The same comprehension with the position of each test in the list beside it, and the
  positions of the recorded tests.
\<close>

definition recorded_refs :: "test list \<Rightarrow> (string \<times> nat \<times> test) list" where
  "recorded_refs ts = foldl (\<lambda>d (i, t). AList.update (t_id t) (i, t) d) [] (enumerate 0 ts)"

definition recorded_positions :: "test list \<Rightarrow> nat list" where
  "recorded_positions ts = map (\<lambda>(k, i, t). i) (recorded_refs ts)"

text \<open>The assignment of \<open>sync_started\<close> on one recorded test with its position.\<close>

definition mark_ref :: "nat \<Rightarrow> test \<Rightarrow> string \<times> nat \<times> test \<Rightarrow> string \<times> nat \<times> test" where
  "mark_ref i t' = (\<lambda>(k, j, t). if j = i then (k, j, t') else (k, j, t))"

definition update_positions :: "env \<Rightarrow> string \<Rightarrow> callback option \<Rightarrow> handler \<Rightarrow> handler" where
  "update_positions e file_name cb s =
     (if \<not> isfile e file_name then s
      else case get_patterns e file_name of
          Inl err \<Rightarrow> s
        | Inr None \<Rightarrow> s
        | Inr (Some vim_patterns) \<Rightarrow>
            if vim_patterns = [] then s
            else
              (let recorded = recorded_tests (stored_get s file_name);
                   s1 = (if recorded = [] then
                           call (SetBufVarSortedTests file_name)
                             (call (SetBufVarTests file_name)
                               (call (SetBufVarResults file_name) s))
                         else s)
               in launch (Runner file_name vim_patterns recorded cb
                            (Some (recorded_positions (stored_get s file_name))))
                    ''update_positions'' s1))"

text \<open>
  The body of \<open>runner()\<close>, in the order of the source: the assignment to
  \<open>_stored_tests\<close> and the sorted ids (\<open>runner_commit\<close>), then the loop over the
  tests, the removed tests, the event and the callback (\<open>runner_notify\<close>).

  The assignment to \<open>_stored_tests\<close> takes the old list out of the snapshot: the
  runners that wait with objects of the old list are detached from it.

  The loop body for one test returns the test as the loop leaves it, the notifications
  it sends and \<open>recorded_tests\<close> after it. \<open>tests\<close> and \<open>_stored_tests[file_name]\<close>
  are the same list, so the assignments to \<open>test.running\<close> are seen in the snapshot:
  after the loop the snapshot is the list of the tests as the loop left them.
  \<open>recorded\<close> holds the recorded tests as they are when the pass runs.
\<close>

fun detach :: "string \<Rightarrow> work \<Rightarrow> work" where
  "detach file_name (Launched (Runner f vim_patterns recorded cb ps) job) =
     (if f = file_name then Launched (Runner f vim_patterns recorded cb None) job
      else Launched (Runner f vim_patterns recorded cb ps) job)"
| "detach file_name w = w"

definition runner_commit :: "string \<Rightarrow> test list \<Rightarrow> handler \<Rightarrow> handler" where
  "runner_commit file_name tests s =
     call (StoreSortedIds file_name (map t_id tests))
       (s\<lparr>stored_tests := (stored_tests s)(file_name \<mapsto> tests),
          pending := map (detach file_name) (pending s)\<rparr>)"

definition loop_body ::
  "env \<Rightarrow> (string \<Rightarrow> string \<rightharpoonup> result) \<Rightarrow> test \<Rightarrow> (string \<times> test) list
     \<Rightarrow> test \<times> vim_call list \<times> (string \<times> test) list" where
  "loop_body e res t recs =
     (case map_of recs (t_id t) of
        Some recorded \<Rightarrow>
          (if t_line recorded \<noteq> t_line t then
             (let t' = t\<lparr>t_running := (if is_running e (t_id t) then 1 else 0)\<rparr>
              in (t', [ProcessMove t'], AList.delete (t_id t) recs))
           else (t, [], AList.delete (t_id t) recs))
      | None \<Rightarrow>
          (case res (t_file t) (t_id t) of
             Some existing_result \<Rightarrow> (t, [ProcessReplace t existing_result], recs)
           | None \<Rightarrow> (t, [ProcessNew t], recs)))"

fun runner_loop ::
  "env \<Rightarrow> (string \<Rightarrow> string \<rightharpoonup> result) \<Rightarrow> test list \<Rightarrow> (string \<times> test) list
     \<Rightarrow> test list \<times> vim_call list \<times> (string \<times> test) list" where
  "runner_loop e res [] recs = ([], [], recs)"
| "runner_loop e res (t # rest) recs =
     (case loop_body e res t recs of
        (t', calls, recs') \<Rightarrow>
          (case runner_loop e res rest recs' of
             (rest', calls', recs'') \<Rightarrow> (t' # rest', calls @ calls', recs'')))"

definition runner_tests :: "env \<Rightarrow> string \<Rightarrow> (string \<times> test) list \<Rightarrow> handler \<Rightarrow> handler" where
  "runner_tests e file_name recorded s =
     (case runner_loop e (results s) (stored_get s file_name) recorded of
        (tests', calls, recorded') \<Rightarrow>
          s\<lparr>stored_tests := (stored_tests s)(file_name \<mapsto> tests'),
            vim_log := vim_log s @ calls @ map (\<lambda>removed. ProcessClear removed) (map snd recorded')\<rparr>)"

fun invoke :: "callback \<Rightarrow> handler \<Rightarrow> handler" where
  "invoke (RunAllAfterUpdate file_name) s = schedule (SRunAll file_name False) s"
| "invoke (RunNearestAfterUpdate ln file_name) s = schedule (SRunNearest ln file_name False) s"

definition runner_notify ::
  "env \<Rightarrow> string \<Rightarrow> (string \<times> test) list \<Rightarrow> callback option \<Rightarrow> handler \<Rightarrow> handler" where
  "runner_notify e file_name recorded cb s =
     (let s2 = runner_tests e file_name recorded s;
          s3 = call PositionsUpdate s2
      in case cb of None \<Rightarrow> s3 | Some c \<Rightarrow> invoke c s3)"

definition runner ::
  "env \<Rightarrow> string \<Rightarrow> patterns \<Rightarrow> (string \<times> test) list \<Rightarrow> callback option \<Rightarrow> handler \<Rightarrow> handler" where
  "runner e file_name vim_patterns recorded cb s =
     (let tests = find_all e file_name vim_patterns;
          s1 = runner_commit file_name tests s
      in runner_notify e file_name recorded cb s1)"

definition run_all :: "env \<Rightarrow> string \<Rightarrow> bool \<Rightarrow> handler \<Rightarrow> handler" where
  "run_all e file_name update_empty s =
     (let tests = stored_get s file_name;
          s1 = (if tests = [] \<and> update_empty
                then update_positions e file_name (Some (RunAllAfterUpdate file_name)) s
                else s)
      in if tests \<noteq> [] then run_tests e file_name (enumerate 0 tests) s1 else s1)"

definition run_nearest :: "env \<Rightarrow> int \<Rightarrow> string \<Rightarrow> bool \<Rightarrow> handler \<Rightarrow> handler" where
  "run_nearest e ln file_name update_empty s =
     (let tests = stored_get s file_name
      in if tests = [] \<and> update_empty
         then update_positions e file_name (Some (RunNearestAfterUpdate ln file_name)) s
         else (case nearest_index e ln tests False of
                 None \<Rightarrow> s
               | Some i \<Rightarrow> run_tests e file_name [(i, tests ! i)] s))"

definition run_single :: "env \<Rightarrow> string \<Rightarrow> string \<Rightarrow> handler \<Rightarrow> handler" where
  "run_single e test_id file_name s =
     (let tests = stored_get s file_name
      in run_tests e file_name (filter (\<lambda>(i, t). t_id t = test_id) (enumerate 0 tests)) s)"

definition stop_test :: "test_dict option \<Rightarrow> handler \<Rightarrow> error + handler" where
  "stop_test test_dict s =
     (case test_dict of
        None \<Rightarrow> Inr s
      | Some d \<Rightarrow>
          if d = [] then Inr s
          else (case Test d of
                  Inl err \<Rightarrow> Inl err
                | Inr t \<Rightarrow> Inr (call (ProcessMove (t\<lparr>t_running := 0\<rparr>)) (stop (t_id t) s))))"

section \<open>The event loop\<close>

text \<open>
  One turn of the loop runs the oldest piece of pending work to its end: a launched
  coroutine (the awaited answer of the finder or of the process manager is read from
  the environment) or a scheduled callable. A task that raises is dropped.
\<close>

fun exec_work :: "env \<Rightarrow> work \<Rightarrow> handler \<Rightarrow> error + handler" where
  "exec_work e (Launched (Runner file_name vim_patterns recorded cb ps) job) s =
     Inr (runner e file_name vim_patterns recorded cb s)"
| "exec_work e (Launched (Run cmd t root) job) s =
     Inr (register_result t (proc_run e cmd t root) s)"
| "exec_work e (Scheduled (SRunAll file_name update_empty)) s =
     Inr (run_all e file_name update_empty s)"
| "exec_work e (Scheduled (SRunNearest ln file_name update_empty)) s =
     Inr (run_nearest e ln file_name update_empty s)"
| "exec_work e (Scheduled (SPresentOutput r)) s = present_output e r s"

fun event_loop :: "env \<Rightarrow> nat \<Rightarrow> handler \<Rightarrow> handler option" where
  "event_loop e fuel s =
     (case pending s of
        [] \<Rightarrow> Some s
      | w # ws \<Rightarrow>
          (case fuel of
             0 \<Rightarrow> None
           | Suc n \<Rightarrow>
               (case exec_work e w (s\<lparr>pending := ws\<rparr>) of
                  Inl err \<Rightarrow> event_loop e n (s\<lparr>pending := ws\<rparr>)
                | Inr s' \<Rightarrow> event_loop e n s')))"

section \<open>Observing a run\<close>

text \<open>The calls made on the editor client between two states.\<close>

definition emitted :: "handler \<Rightarrow> handler \<Rightarrow> vim_call list" where
  "emitted s s' = drop (length (vim_log s)) (vim_log s')"

text \<open>The ids of the tests that a list of calls reports as removed, new, replaced and moved.\<close>

fun removed_id :: "vim_call \<Rightarrow> string option" where
  "removed_id (ProcessClear t) = Some (t_id t)"
| "removed_id c = None"

fun new_id :: "vim_call \<Rightarrow> string option" where
  "new_id (ProcessNew t) = Some (t_id t)"
| "new_id c = None"

fun replaced_id :: "vim_call \<Rightarrow> string option" where
  "replaced_id (ProcessReplace t r) = Some (t_id t)"
| "replaced_id c = None"

fun moved_id :: "vim_call \<Rightarrow> string option" where
  "moved_id (ProcessMove t) = Some (t_id t)"
| "moved_id c = None"

definition removed_ids :: "vim_call list \<Rightarrow> string list" where
  "removed_ids cs = List.map_filter removed_id cs"

definition new_ids :: "vim_call list \<Rightarrow> string list" where
  "new_ids cs = List.map_filter new_id cs"

definition replaced_ids :: "vim_call list \<Rightarrow> string list" where
  "replaced_ids cs = List.map_filter replaced_id cs"

definition moved_ids :: "vim_call list \<Rightarrow> string list" where
  "moved_ids cs = List.map_filter moved_id cs"

text \<open>
  A reconciliation pass is launched by \<open>launch(runner(), "update_positions")\<close>; a
  re-invocation of \<open>run_all\<close> or \<open>run_nearest\<close> is scheduled by a callback.
\<close>

fun is_pass_launch :: "vim_call \<Rightarrow> bool" where
  "is_pass_launch (Launch (Runner file_name vim_patterns recorded cb ps) job) = True"
| "is_pass_launch c = False"

fun is_reinvocation :: "vim_call \<Rightarrow> bool" where
  "is_reinvocation (Schedule (SRunAll file_name update_empty)) = True"
| "is_reinvocation (Schedule (SRunNearest ln file_name update_empty)) = True"
| "is_reinvocation c = False"

definition pass_launches :: "handler \<Rightarrow> vim_call list" where
  "pass_launches s = filter is_pass_launch (vim_log s)"

definition reinvocation_calls :: "handler \<Rightarrow> vim_call list" where
  "reinvocation_calls s = filter is_reinvocation (vim_log s)"

text \<open>
  The patterns with which \<open>update_positions\<close> goes on to launch a pass: the file
  exists, and the editor returns patterns that are not empty.
\<close>

definition usable_patterns :: "env \<Rightarrow> string \<Rightarrow> patterns option" where
  "usable_patterns e file_name =
     (if isfile e file_name then
        (case get_patterns e file_name of
           Inr (Some vim_patterns) \<Rightarrow> if vim_patterns = [] then None else Some vim_patterns
         | _ \<Rightarrow> None)
      else None)"

text \<open>
  Work that starts no pass and schedules no run: a test run and the presentation of an
  output. A run may schedule one presentation, so it counts for two turns of the loop.
\<close>

fun quiet_work :: "work \<Rightarrow> bool" where
  "quiet_work (Launched (Run cmd t root) job) = True"
| "quiet_work (Scheduled (SPresentOutput r)) = True"
| "quiet_work w = False"

fun work_turns :: "work \<Rightarrow> nat" where
  "work_turns (Launched (Run cmd t root) job) = 2"
| "work_turns w = 1"

text \<open>
  The calls of a reconciliation pass. Its recorded tests are those of the list
  \<open>prev\<close>, the snapshot list of the file when \<open>update_positions\<close> was called, with
  its tests as they are when the pass runs; the pass runs from state \<open>s\<close>.
  \<open>callback_calls\<close> are the calls of the callback at its end.
\<close>

definition pass_calls ::
  "env \<Rightarrow> string \<Rightarrow> patterns \<Rightarrow> test list \<Rightarrow> callback option \<Rightarrow> handler \<Rightarrow> vim_call list" where
  "pass_calls e f p prev cb s = emitted s (runner e f p (recorded_tests prev) cb s)"

definition callback_calls :: "callback option \<Rightarrow> vim_call list" where
  "callback_calls cb =
     (case cb of
        None \<Rightarrow> []
      | Some (RunAllAfterUpdate g) \<Rightarrow> [Schedule (SRunAll g False)]
      | Some (RunNearestAfterUpdate ln g) \<Rightarrow> [Schedule (SRunNearest ln g False)])"

section \<open>Example data\<close>

text \<open>
  A handler as \<open>__init__\<close> leaves it (with \<open>g:ultest_output_on_run\<close> at its default 1),
  tests at a line of a file, and an environment in which every file exists and has
  patterns, the finder reports the given tests and the process manager the given
  running tests.
\<close>

definition init_handler :: handler where
  "init_handler =
     \<lparr>stored_tests = Map.empty, show_on_run = True, results = (\<lambda>f. Map.empty),
      external_outputs = Map.empty, registered = [], vim_log = [], pending = []\<rparr>"

definition test_at :: "string \<Rightarrow> string \<Rightarrow> int \<Rightarrow> test" where
  "test_at i f ln = \<lparr>t_id = i, t_name = i, t_file = f, t_line = ln, t_col = 1, t_running = 0\<rparr>"

definition go_patterns :: patterns where
  "go_patterns = [(''test'', [''^func Test''])]"

definition example_env :: "test list \<Rightarrow> (string \<Rightarrow> bool) \<Rightarrow> env" where
  "example_env found running =
     \<lparr>isfile = (\<lambda>f. True),
      get_patterns = (\<lambda>f. Inr (Some go_patterns)),
      find_all = (\<lambda>f p. found),
      get_nearest_from = (\<lambda>ln ts strict. if ts = [] then None else Some 0),
      is_running = running,
      project_root = None,
      build_cmd = (\<lambda>t. [''go'', ''test'', t_name t]),
      proc_run = (\<lambda>cmd t root. \<lparr>r_id = t_id t, r_file = t_file t, r_code = 0, r_output = []\<rparr>),
      expand_current = ''a_test.go'',
      getbufinfo = (\<lambda>f. [1])\<rparr>"

text \<open>
  The scenario of the spec: \<open>a_test.go\<close> has the tests t1 at line 10 and t2 at line 20
  cached, and the re-scan returns t1 at line 15 and t3 at line 20.
\<close>

definition cached_tests :: "test list" where
  "cached_tests = [test_at ''t1'' ''a_test.go'' 10, test_at ''t2'' ''a_test.go'' 20]"

definition rescanned_tests :: "test list" where
  "rescanned_tests = [test_at ''t1'' ''a_test.go'' 15, test_at ''t3'' ''a_test.go'' 20]"

text \<open>
  The payload of the external scenario of the spec, the test that \<open>Test(**test_dict)\<close>
  builds from it, and the result of exit code 1 and output \<open>fail\<close>.
\<close>

definition external_payload :: test_dict where
  "external_payload =
     [(''id'', PStr ''x''), (''file'', PStr ''f''), (''name'', PStr ''X''),
      (''line'', PInt 1), (''col'', PInt 1), (''running'', PInt 1)]"

definition external_test :: test where
  "external_test = \<lparr>t_id = ''x'', t_name = ''X'', t_file = ''f'', t_line = 1, t_col = 1, t_running = 1\<rparr>"

definition external_fail :: result where
  "external_fail = \<lparr>r_id = ''x'', r_file = ''f'', r_code = 1, r_output = ''fail''\<rparr>"

text \<open>An environment in which no file is on disk.\<close>

definition no_file_env :: env where
  "no_file_env = (example_env [] (\<lambda>i. False))\<lparr>isfile := (\<lambda>f. False)\<rparr>"

section \<open>The reconciliation pass\<close>

subsection \<open>The recorded tests and the loop\<close>

text \<open>
  The recorded positions belong to the recorded tests: \<open>recorded_refs\<close> without its
  positions is \<open>recorded_tests\<close>, and each position is the place of its test in the
  list.
\<close>

lemma update_proj:
  "map (\<lambda>(k, i, t). (k, t)) (AList.update k (i, t) d) = AList.update k t (map (\<lambda>(k, i, t). (k, t)) d)"
  by (induction d) auto

lemma recorded_refs_aux:
  "map (\<lambda>(k, i, t). (k, t)) (foldl (\<lambda>d (i, t). AList.update (t_id t) (i, t) d) d0 (enumerate n ts)) =
   foldl (\<lambda>d t. AList.update (t_id t) t d) (map (\<lambda>(k, i, t). (k, t)) d0) ts"
  by (induction ts arbitrary: n d0) (simp_all add: update_proj)

lemma recorded_refs_tests: "map (\<lambda>(k, i, t). (k, t)) (recorded_refs ts) = recorded_tests ts"
  using recorded_refs_aux [of "[]" 0 ts] by (simp add: recorded_refs_def recorded_tests_def)

lemma recorded_refs_in_aux:
  "snd ` set (foldl (\<lambda>d (i, t). AList.update (t_id t) (i, t) d) d0 xs) \<subseteq> snd ` set d0 \<union> set xs"
proof (induction xs arbitrary: d0)
  case Nil
  show ?case by simp
next
  case (Cons x xs)
  obtain i t where x: "x = (i, t)" by (cases x)
  have "snd ` set (AList.update (t_id t) (i, t) d0) \<subseteq> snd ` set d0 \<union> {(i, t)}"
    by (induction d0) auto
  moreover have "snd ` set (foldl (\<lambda>d (i, t). AList.update (t_id t) (i, t) d) (AList.update (t_id t) (i, t) d0) xs)
      \<subseteq> snd ` set (AList.update (t_id t) (i, t) d0) \<union> set xs"
    by (rule Cons.IH)
  ultimately have "snd ` set (foldl (\<lambda>d (i, t). AList.update (t_id t) (i, t) d) (AList.update (t_id t) (i, t) d0) xs)
      \<subseteq> snd ` set d0 \<union> {(i, t)} \<union> set xs"
    by blast
  then show ?case using x by simp
qed

lemma recorded_refs_positions:
  "(k, i, t) \<in> set (recorded_refs ts) \<Longrightarrow> i < length ts \<and> ts ! i = t"
proof -
  assume "(k, i, t) \<in> set (recorded_refs ts)"
  then have "(i, t) \<in> snd ` set (recorded_refs ts)" by force
  then have "(i, t) \<in> set (enumerate 0 ts)"
    using recorded_refs_in_aux [of "[]" "enumerate 0 ts"] by (auto simp: recorded_refs_def)
  then show ?thesis by (simp add: in_set_enumerate_eq)
qed

text \<open>
  Starting a test of the snapshot keeps the recorded tests of a waiting pass in step
  with the snapshot: they are the recorded tests of the snapshot after the start.
\<close>

lemma mark_ref_fst [simp]: "fst (mark_ref i t' p) = fst p"
  by (cases p) (simp add: mark_ref_def)

lemma mark_ref_triple: "mark_ref i t' (k, j, t) = (if j = i then (k, j, t') else (k, j, t))"
  by (simp add: mark_ref_def)

lemma mark_started_refs:
  "mark_started i t' (map (\<lambda>(k, j, t). (k, t)) refs) (map (\<lambda>(k, j, t). j) refs) =
   map (\<lambda>(k, j, t). (k, t)) (map (mark_ref i t') refs)"
  by (induction refs) (auto simp: mark_ref_def)

lemma update_mark_ref:
  "map (mark_ref i t') (AList.update k (j, t) d) =
   AList.update k (if j = i then (j, t') else (j, t)) (map (mark_ref i t') d)"
  by (induction d) (simp_all add: mark_ref_triple)

lemma refs_foldl_before:
  "i < n \<Longrightarrow>
   map (mark_ref i t') (foldl (\<lambda>d (j, t). AList.update (t_id t) (j, t) d) d0 (enumerate n ts)) =
   foldl (\<lambda>d (j, t). AList.update (t_id t) (j, t) d) (map (mark_ref i t') d0) (enumerate n ts)"
  by (induction ts arbitrary: n d0) (simp_all add: update_mark_ref)

lemma refs_foldl_mark:
  "n \<le> i \<Longrightarrow> i < n + length ts \<Longrightarrow> t_id t' = t_id (ts ! (i - n)) \<Longrightarrow>
   map (mark_ref i t') (foldl (\<lambda>d (j, t). AList.update (t_id t) (j, t) d) d0 (enumerate n ts)) =
   foldl (\<lambda>d (j, t). AList.update (t_id t) (j, t) d) (map (mark_ref i t') d0) (enumerate n (ts[i - n := t']))"
proof (induction ts arbitrary: n d0)
  case Nil
  then show ?case by simp
next
  case (Cons u ts)
  show ?case
  proof (cases "i = n")
    case True
    then have "t_id t' = t_id u" using Cons.prems by simp
    then show ?thesis using True
      by (simp add: update_mark_ref refs_foldl_before)
  next
    case False
    then have a: "Suc n \<le> i" "i < Suc n + length ts" and b: "i - n = Suc (i - Suc n)"
      using Cons.prems by simp_all
    have c: "t_id t' = t_id (ts ! (i - Suc n))" using Cons.prems(3) b by simp
    show ?thesis using False Cons.IH [OF a c] b
      by (simp add: update_mark_ref)
  qed
qed

lemma recorded_tests_started:
  assumes "i < length ts" and "t_id t' = t_id (ts ! i)"
  shows "mark_started i t' (recorded_tests ts) (recorded_positions ts) = recorded_tests (ts[i := t'])"
proof -
  have "mark_started i t' (recorded_tests ts) (recorded_positions ts) =
        map (\<lambda>(k, j, t). (k, t)) (map (mark_ref i t') (recorded_refs ts))"
    using mark_started_refs [of i t' "recorded_refs ts"]
    by (simp add: recorded_refs_tests recorded_positions_def)
  also have "map (mark_ref i t') (recorded_refs ts) = recorded_refs (ts[i := t'])"
    using refs_foldl_mark [of 0 i ts t' "[]"] assms by (simp add: recorded_refs_def)
  finally show ?thesis by (simp add: recorded_refs_tests)
qed

lemma recorded_positions_started:
  assumes "i < length ts" and "t_id t' = t_id (ts ! i)"
  shows "recorded_positions (ts[i := t']) = recorded_positions ts"
proof -
  have "map (mark_ref i t') (recorded_refs ts) = recorded_refs (ts[i := t'])"
    using refs_foldl_mark [of 0 i ts t' "[]"] assms by (simp add: recorded_refs_def)
  then have "recorded_positions (ts[i := t']) = map (\<lambda>(k, j, t). j) (map (mark_ref i t') (recorded_refs ts))"
    by (simp add: recorded_positions_def)
  also have "\<dots> = recorded_positions ts"
    by (simp add: recorded_positions_def mark_ref_def split_def comp_def)
  finally show ?thesis .
qed

lemma sync_started_recorded:
  assumes "i < length ts" and "t_id t' = t_id (ts ! i)"
  shows "sync_started f i t'
           (Launched (Runner f p (recorded_tests ts) cb (Some (recorded_positions ts))) job) =
         Launched (Runner f p (recorded_tests (ts[i := t'])) cb (Some (recorded_positions (ts[i := t'])))) job"
  using assms by (simp add: recorded_tests_started recorded_positions_started)

text \<open>
  A pass is what \<open>update_positions\<close> launches for a file with patterns, with the tests
  recorded from the snapshot at that moment; run as a task, it makes the calls
  \<open>pass_calls\<close>.
\<close>

lemma update_positions_launches:
  "usable_patterns e f = Some ps \<Longrightarrow>
   pending (update_positions e f cb s) =
     pending s @ [Launched (Runner f ps (recorded_tests (stored_get s f)) cb
                             (Some (recorded_positions (stored_get s f)))) ''update_positions'']"
  by (simp add: update_positions_def usable_patterns_def launch_def call_def Let_def
        split: sum.splits option.splits if_splits)

lemma runner_task_calls:
  "exec_work e (Launched (Runner f ps (recorded_tests prev) cb a) job) s = Inr s' \<Longrightarrow>
   emitted s s' = pass_calls e f ps prev cb s"
  by (auto simp: pass_calls_def)

lemma recorded_tests_keys_aux:
  "fst ` set (foldl (\<lambda>d t. AList.update (t_id t) t d) d0 ts) = fst ` set d0 \<union> t_id ` set ts"
  by (induction ts arbitrary: d0) (auto simp: AList.dom_update)

lemma recorded_tests_keys: "fst ` set (recorded_tests ts) = t_id ` set ts"
  by (simp add: recorded_tests_def recorded_tests_keys_aux)

lemma recorded_tests_distinct_aux:
  "distinct (map fst d0) \<Longrightarrow> distinct (map fst (foldl (\<lambda>d t. AList.update (t_id t) t d) d0 ts))"
  by (induction ts arbitrary: d0) (auto simp: AList.distinct_update)

lemma recorded_tests_distinct: "distinct (map fst (recorded_tests ts))"
  by (simp add: recorded_tests_def recorded_tests_distinct_aux)

lemma loop_body_delete:
  "k \<noteq> t_id t \<Longrightarrow>
     fst (loop_body e res t (AList.delete k recs)) = fst (loop_body e res t recs) \<and>
     fst (snd (loop_body e res t (AList.delete k recs))) = fst (snd (loop_body e res t recs))"
  by (simp add: loop_body_def Let_def split: option.splits)

lemma loop_body_recs:
  "snd (snd (loop_body e res t recs)) = AList.delete (t_id t) recs"
  by (auto simp: loop_body_def Let_def split: option.splits dest: map_of_eq_None_iff[THEN iffD1])

lemma runner_loop_recs:
  "snd (snd (runner_loop e res ts recs)) = filter (\<lambda>p. fst p \<notin> t_id ` set ts) recs"
proof (induction ts arbitrary: recs)
  case Nil
  show ?case by simp
next
  case (Cons t ts)
  obtain t' calls recs' where b: "loop_body e res t recs = (t', calls, recs')"
    by (cases "loop_body e res t recs") auto
  then have r: "recs' = AList.delete (t_id t) recs"
    using loop_body_recs [of e res t recs] by simp
  obtain ts' calls' recs'' where l: "runner_loop e res ts recs' = (ts', calls', recs'')"
    by (cases "runner_loop e res ts recs'") auto
  have "recs'' = filter (\<lambda>p. fst p \<notin> t_id ` set ts) recs'"
    using Cons.IH [of recs'] l by simp
  then show ?case using b l r
    by (auto simp: AList.delete_eq intro: filter_cong)
qed

lemma runner_loop_closed:
  "distinct (map t_id ts) \<Longrightarrow>
   runner_loop e res ts recs =
     (map (\<lambda>t. fst (loop_body e res t recs)) ts,
      concat (map (\<lambda>t. fst (snd (loop_body e res t recs))) ts),
      filter (\<lambda>p. fst p \<notin> t_id ` set ts) recs)"
proof (induction ts arbitrary: recs)
  case Nil
  show ?case by simp
next
  case (Cons t ts)
  obtain t' calls recs' where b: "loop_body e res t recs = (t', calls, recs')"
    by (cases "loop_body e res t recs") auto
  then have r: "recs' = AList.delete (t_id t) recs"
    using loop_body_recs [of e res t recs] by simp
  from Cons.prems have d: "distinct (map t_id ts)" and n: "\<forall>u\<in>set ts. t_id u \<noteq> t_id t"
    by (auto simp: image_iff)
  have ih: "runner_loop e res ts recs' =
     (map (\<lambda>t. fst (loop_body e res t recs')) ts,
      concat (map (\<lambda>t. fst (snd (loop_body e res t recs'))) ts),
      filter (\<lambda>p. fst p \<notin> t_id ` set ts) recs')"
    using Cons.IH [OF d] .
  have m1: "map (\<lambda>t. fst (loop_body e res t recs')) ts = map (\<lambda>t. fst (loop_body e res t recs)) ts"
    using n r loop_body_delete by (intro map_cong) auto
  have m2: "map (\<lambda>t. fst (snd (loop_body e res t recs'))) ts = map (\<lambda>t. fst (snd (loop_body e res t recs))) ts"
    using n r loop_body_delete by (intro map_cong) auto
  have f: "filter (\<lambda>p. fst p \<notin> t_id ` set ts) recs' = filter (\<lambda>p. fst p \<notin> t_id ` set (t # ts)) recs"
    using r by (auto simp: AList.delete_eq intro: filter_cong)
  show ?case using b ih m1 m2 f by simp
qed


lemma invoke_frame [simp]:
  "stored_tests (invoke c s) = stored_tests s"
  "results (invoke c s) = results s"
  "show_on_run (invoke c s) = show_on_run s"
  "external_outputs (invoke c s) = external_outputs s"
  "registered (invoke c s) = registered s"
  by (cases c; simp add: schedule_def)+

lemma invoke_log:
  "vim_log (invoke c s) = vim_log s @
     (case c of RunAllAfterUpdate g \<Rightarrow> [Schedule (SRunAll g False)]
      | RunNearestAfterUpdate ln g \<Rightarrow> [Schedule (SRunNearest ln g False)])"
  by (cases c) (simp_all add: schedule_def)

lemma invoke_pending:
  "pending (invoke c s) = pending s @
     (case c of RunAllAfterUpdate g \<Rightarrow> [Scheduled (SRunAll g False)]
      | RunNearestAfterUpdate ln g \<Rightarrow> [Scheduled (SRunNearest ln g False)])"
  by (cases c) (simp_all add: schedule_def)

lemma runner_log:
  "vim_log (runner e f p recorded cb s) =
     vim_log s @ [StoreSortedIds f (map t_id (find_all e f p))]
       @ fst (snd (runner_loop e (results s) (find_all e f p) recorded))
       @ map ProcessClear (map snd (snd (snd (runner_loop e (results s) (find_all e f p) recorded))))
       @ [PositionsUpdate]
       @ callback_calls cb"
  by (simp add: runner_def runner_notify_def runner_tests_def runner_commit_def call_def stored_get_def Let_def
        invoke_log callback_calls_def
        split: prod.splits option.splits callback.splits)

lemma runner_stored:
  "stored_tests (runner e f p recorded cb s) =
     (stored_tests s)(f \<mapsto> fst (runner_loop e (results s) (find_all e f p) recorded))"
  by (simp add: runner_def runner_notify_def runner_tests_def runner_commit_def call_def stored_get_def Let_def
        split: prod.splits option.splits)

lemma map_filter_append: "List.map_filter g (xs @ ys) = List.map_filter g xs @ List.map_filter g ys"
  by (simp add: List.map_filter_def)

lemma map_filter_concat: "List.map_filter g (concat xss) = concat (map (List.map_filter g) xss)"
  by (induction xss) (simp_all add: map_filter_append)

lemma recorded_tests_key_aux:
  "\<forall>p\<in>set d0. fst p = t_id (snd p) \<Longrightarrow>
   \<forall>p\<in>set (foldl (\<lambda>d t. AList.update (t_id t) t d) d0 ts). fst p = t_id (snd p)"
proof (induction ts arbitrary: d0)
  case Nil
  then show ?case by simp
next
  case (Cons t ts)
  have "\<forall>p\<in>set (AList.update (t_id t) t d0). fst p = t_id (snd p)"
    using Cons.prems by (induction d0) auto
  then show ?case using Cons.IH by simp
qed

lemma recorded_tests_key: "p \<in> set (recorded_tests ts) \<Longrightarrow> t_id (snd p) = fst p"
  using recorded_tests_key_aux [of "[]" ts] by (simp add: recorded_tests_def)

lemma loop_body_calls:
  "fst (snd (loop_body e res t recs)) =
     (case map_of recs (t_id t) of
        Some recorded \<Rightarrow>
          if t_line recorded \<noteq> t_line t
          then [ProcessMove (t\<lparr>t_running := (if is_running e (t_id t) then 1 else 0)\<rparr>)] else []
      | None \<Rightarrow> (case res (t_file t) (t_id t) of
                   Some r \<Rightarrow> [ProcessReplace t r] | None \<Rightarrow> [ProcessNew t]))"
  by (simp add: loop_body_def Let_def split: option.splits)

lemma loop_body_new_ids:
  "new_ids (fst (snd (loop_body e res t recs))) =
     (if map_of recs (t_id t) = None \<and> res (t_file t) (t_id t) = None then [t_id t] else [])"
  by (simp add: loop_body_calls new_ids_def split: option.splits)

lemma loop_body_replaced_ids:
  "replaced_ids (fst (snd (loop_body e res t recs))) =
     (if map_of recs (t_id t) = None \<and> res (t_file t) (t_id t) \<noteq> None then [t_id t] else [])"
  by (simp add: loop_body_calls replaced_ids_def split: option.splits)

lemma loop_body_moved_ids:
  "moved_ids (fst (snd (loop_body e res t recs))) =
     (if (\<exists>r. map_of recs (t_id t) = Some r \<and> t_line r \<noteq> t_line t) then [t_id t] else [])"
  by (simp add: loop_body_calls moved_ids_def split: option.splits)

lemma loop_body_removed_ids:
  "removed_ids (fst (snd (loop_body e res t recs))) = []"
  by (simp add: loop_body_calls removed_ids_def split: option.splits)

lemma count_concat_if:
  "distinct (map t_id ts) \<Longrightarrow> t \<in> set ts \<Longrightarrow>
   count_list (concat (map (\<lambda>u. if P u then [t_id u] else []) ts)) (t_id t) = (if P t then 1 else 0)"
proof (induction ts)
  case Nil
  then show ?case by simp
next
  case (Cons u ts)
  have notin: "\<And>i. i \<notin> t_id ` set ts \<Longrightarrow> count_list (concat (map (\<lambda>u. if P u then [t_id u] else []) ts)) i = 0"
    by (rule count_notin) auto
  show ?case
  proof (cases "t = u")
    case True
    then have "t_id t \<notin> t_id ` set ts" using Cons.prems by auto
    then show ?thesis using True notin by simp
  next
    case False
    then have tin: "t \<in> set ts" using Cons.prems by simp
    then have "t_id u \<noteq> t_id t" using Cons.prems by (auto simp: image_iff)
    then show ?thesis using Cons.IH tin Cons.prems by simp
  qed
qed

lemma distinct_count_1: "distinct xs \<Longrightarrow> x \<in> set xs \<Longrightarrow> count_list xs x = 1"
  by (induction xs) auto


lemma emitted_append [simp]: "emitted s (s'\<lparr>vim_log := vim_log s @ cs\<rparr>) = cs"
  by (simp add: emitted_def)

lemma pass_calls_eq:
  "pass_calls e f p prev cb s =
     [StoreSortedIds f (map t_id (find_all e f p))]
       @ fst (snd (runner_loop e (results s) (find_all e f p) (recorded_tests prev)))
       @ map ProcessClear (map snd (snd (snd (runner_loop e (results s) (find_all e f p) (recorded_tests prev)))))
       @ [PositionsUpdate]
       @ callback_calls cb"
  by (simp add: pass_calls_def emitted_def runner_log)

lemma ids_Nil [simp]:
  "removed_ids [] = []" "new_ids [] = []" "replaced_ids [] = []" "moved_ids [] = []"
  by (simp_all add: removed_ids_def new_ids_def replaced_ids_def moved_ids_def)

lemma ids_Cons [simp]:
  "removed_ids (c # cs) = (case removed_id c of None \<Rightarrow> removed_ids cs | Some i \<Rightarrow> i # removed_ids cs)"
  "new_ids (c # cs) = (case new_id c of None \<Rightarrow> new_ids cs | Some i \<Rightarrow> i # new_ids cs)"
  "replaced_ids (c # cs) = (case replaced_id c of None \<Rightarrow> replaced_ids cs | Some i \<Rightarrow> i # replaced_ids cs)"
  "moved_ids (c # cs) = (case moved_id c of None \<Rightarrow> moved_ids cs | Some i \<Rightarrow> i # moved_ids cs)"
  by (simp_all add: removed_ids_def new_ids_def replaced_ids_def moved_ids_def split: option.splits)

lemma ids_append [simp]:
  "removed_ids (cs @ ds) = removed_ids cs @ removed_ids ds"
  "new_ids (cs @ ds) = new_ids cs @ new_ids ds"
  "replaced_ids (cs @ ds) = replaced_ids cs @ replaced_ids ds"
  "moved_ids (cs @ ds) = moved_ids cs @ moved_ids ds"
  by (simp_all add: removed_ids_def new_ids_def replaced_ids_def moved_ids_def map_filter_append)

lemma ids_concat:
  "removed_ids (concat css) = concat (map removed_ids css)"
  "new_ids (concat css) = concat (map new_ids css)"
  "replaced_ids (concat css) = concat (map replaced_ids css)"
  "moved_ids (concat css) = concat (map moved_ids css)"
  by (induction css) simp_all

lemma ids_callback [simp]:
  "removed_ids (callback_calls cb) = []" "new_ids (callback_calls cb) = []"
  "replaced_ids (callback_calls cb) = []" "moved_ids (callback_calls cb) = []"
  by (simp_all add: callback_calls_def split: option.splits callback.splits)

lemma ids_clear [simp]:
  "removed_ids (map (\<lambda>x. ProcessClear (g x)) xs) = map (\<lambda>x. t_id (g x)) xs"
  "new_ids (map (\<lambda>x. ProcessClear (g x)) xs) = []"
  "replaced_ids (map (\<lambda>x. ProcessClear (g x)) xs) = []"
  "moved_ids (map (\<lambda>x. ProcessClear (g x)) xs) = []"
  by (induction xs) simp_all

lemma concat_map_Nil [simp]: "concat (map (\<lambda>x. []) xs) = []"
  by (induction xs) simp_all

lemma pass_ids:
  assumes "distinct (map t_id (find_all e f p))"
  shows "removed_ids (pass_calls e f p prev cb s) =
           filter (\<lambda>i. i \<notin> t_id ` set (find_all e f p)) (map fst (recorded_tests prev))"
    and "new_ids (pass_calls e f p prev cb s) =
           concat (map (\<lambda>t. if map_of (recorded_tests prev) (t_id t) = None \<and> results s (t_file t) (t_id t) = None
                            then [t_id t] else []) (find_all e f p))"
    and "replaced_ids (pass_calls e f p prev cb s) =
           concat (map (\<lambda>t. if map_of (recorded_tests prev) (t_id t) = None \<and> results s (t_file t) (t_id t) \<noteq> None
                            then [t_id t] else []) (find_all e f p))"
    and "moved_ids (pass_calls e f p prev cb s) =
           concat (map (\<lambda>t. if (\<exists>r. map_of (recorded_tests prev) (t_id t) = Some r \<and> t_line r \<noteq> t_line t)
                            then [t_id t] else []) (find_all e f p))"
proof -
  have k: "map (t_id \<circ> snd) (filter (\<lambda>p. fst p \<notin> A) (recorded_tests prev)) =
           filter (\<lambda>i. i \<notin> A) (map fst (recorded_tests prev))" for A
  proof -
    have "map (t_id \<circ> snd) (filter (\<lambda>p. fst p \<notin> A) (recorded_tests prev)) =
          map fst (filter (\<lambda>p. fst p \<notin> A) (recorded_tests prev))"
      by (rule map_cong [OF refl]) (auto dest: recorded_tests_key)
    then show ?thesis by (simp add: filter_map comp_def)
  qed
  show "removed_ids (pass_calls e f p prev cb s) =
           filter (\<lambda>i. i \<notin> t_id ` set (find_all e f p)) (map fst (recorded_tests prev))"
    using k by (simp add: pass_calls_eq runner_loop_closed [OF assms] ids_concat comp_def loop_body_removed_ids)
  show "new_ids (pass_calls e f p prev cb s) =
           concat (map (\<lambda>t. if map_of (recorded_tests prev) (t_id t) = None \<and> results s (t_file t) (t_id t) = None
                            then [t_id t] else []) (find_all e f p))"
    by (simp add: pass_calls_eq runner_loop_closed [OF assms] ids_concat comp_def loop_body_new_ids)
  show "replaced_ids (pass_calls e f p prev cb s) =
           concat (map (\<lambda>t. if map_of (recorded_tests prev) (t_id t) = None \<and> results s (t_file t) (t_id t) \<noteq> None
                            then [t_id t] else []) (find_all e f p))"
    by (simp add: pass_calls_eq runner_loop_closed [OF assms] ids_concat comp_def loop_body_replaced_ids)
  show "moved_ids (pass_calls e f p prev cb s) =
           concat (map (\<lambda>t. if (\<exists>r. map_of (recorded_tests prev) (t_id t) = Some r \<and> t_line r \<noteq> t_line t)
                            then [t_id t] else []) (find_all e f p))"
    by (simp add: pass_calls_eq runner_loop_closed [OF assms] ids_concat comp_def loop_body_moved_ids)
qed

lemma recorded_lookup_None: "map_of (recorded_tests prev) i = None \<longleftrightarrow> i \<notin> t_id ` set prev"
  by (simp add: map_of_eq_None_iff recorded_tests_keys)

lemma runner_loop_removed_ids: "removed_ids (fst (snd (runner_loop e res ts recs))) = []"
proof (induction ts arbitrary: recs)
  case Nil
  show ?case by simp
next
  case (Cons t ts)
  obtain t' calls recs' where b: "loop_body e res t recs = (t', calls, recs')"
    by (cases "loop_body e res t recs") auto
  then have c: "removed_ids calls = []"
    using loop_body_removed_ids [of e res t recs] by simp
  obtain ts' calls' recs'' where l: "runner_loop e res ts recs' = (ts', calls', recs'')"
    by (cases "runner_loop e res ts recs'") auto
  then show ?case using Cons.IH [of recs'] b c by simp
qed

lemma pass_removed_ids:
  "removed_ids (pass_calls e f p prev cb s) =
     filter (\<lambda>i. i \<notin> t_id ` set (find_all e f p)) (map fst (recorded_tests prev))"
proof -
  let ?A = "t_id ` set (find_all e f p)"
  let ?L = "runner_loop e (results s) (find_all e f p) (recorded_tests prev)"
  have "map (\<lambda>x. t_id (snd x)) (filter (\<lambda>p. fst p \<notin> ?A) (recorded_tests prev)) =
        map fst (filter (\<lambda>p. fst p \<notin> ?A) (recorded_tests prev))"
    by (rule map_cong [OF refl]) (auto dest: recorded_tests_key)
  also have "\<dots> = filter (\<lambda>i. i \<notin> ?A) (map fst (recorded_tests prev))"
    by (simp add: filter_map comp_def)
  finally have k: "map (\<lambda>x. t_id (snd x)) (filter (\<lambda>p. fst p \<notin> ?A) (recorded_tests prev)) =
        filter (\<lambda>i. i \<notin> ?A) (map fst (recorded_tests prev))" .
  have r: "snd (snd ?L) = filter (\<lambda>p. fst p \<notin> ?A) (recorded_tests prev)"
    by (rule runner_loop_recs)
  have "removed_ids (pass_calls e f p prev cb s) = map (\<lambda>x. t_id (snd x)) (snd (snd ?L))"
    by (simp add: pass_calls_eq runner_loop_removed_ids comp_def)
  then show ?thesis by (simp only: r k)
qed

text \<open>
  C1. A pass reports every id of the previous snapshot that is absent from the newly
  discovered list exactly once as removed. When the ids of the newly discovered list
  are unique, as the ids of the tests of a file are, it reports every id of the new
  list that is absent from the previous snapshot exactly once as new or replaced, never
  as both: as new when the result cache has no result for the (file, id) of the test,
  as replaced when it has one.
\<close>

theorem exhaustive_diff:
  "(\<forall>i \<in> t_id ` set prev - t_id ` set (find_all e f p).
      count_list (removed_ids (pass_calls e f p prev cb s)) i = 1) \<and>
   (distinct (map t_id (find_all e f p)) \<longrightarrow>
      (\<forall>t \<in> set (find_all e f p). t_id t \<notin> t_id ` set prev \<longrightarrow>
         count_list (new_ids (pass_calls e f p prev cb s) @ replaced_ids (pass_calls e f p prev cb s)) (t_id t) = 1 \<and>
         (t_id t \<in> set (new_ids (pass_calls e f p prev cb s)) \<longleftrightarrow> results s (t_file t) (t_id t) = None) \<and>
         (t_id t \<in> set (replaced_ids (pass_calls e f p prev cb s)) \<longleftrightarrow> results s (t_file t) (t_id t) \<noteq> None)))"
proof (intro conjI ballI impI)
  fix i assume "i \<in> t_id ` set prev - t_id ` set (find_all e f p)"
  then have "i \<in> set (filter (\<lambda>i. i \<notin> t_id ` set (find_all e f p)) (map fst (recorded_tests prev)))"
    using recorded_tests_keys [of prev] by auto
  moreover have "distinct (filter (\<lambda>i. i \<notin> t_id ` set (find_all e f p)) (map fst (recorded_tests prev)))"
    using recorded_tests_distinct by (rule distinct_filter)
  ultimately show "count_list (removed_ids (pass_calls e f p prev cb s)) i = 1"
    by (simp only: pass_removed_ids distinct_count_1)
next
  fix t assume d: "distinct (map t_id (find_all e f p))"
    and t: "t \<in> set (find_all e f p)" and n: "t_id t \<notin> t_id ` set prev"
  have cn: "count_list (new_ids (pass_calls e f p prev cb s)) (t_id t) =
          (if map_of (recorded_tests prev) (t_id t) = None \<and> results s (t_file t) (t_id t) = None then 1 else 0)"
    by (simp only: pass_ids(2) [OF d] count_concat_if [OF d t])
  have cr: "count_list (replaced_ids (pass_calls e f p prev cb s)) (t_id t) =
          (if map_of (recorded_tests prev) (t_id t) = None \<and> results s (t_file t) (t_id t) \<noteq> None then 1 else 0)"
    by (simp only: pass_ids(3) [OF d] count_concat_if [OF d t])
  have l: "map_of (recorded_tests prev) (t_id t) = None"
    using n by (simp add: recorded_lookup_None)
  show "count_list (new_ids (pass_calls e f p prev cb s) @ replaced_ids (pass_calls e f p prev cb s)) (t_id t) = 1"
    using cn cr l by simp
  show "t_id t \<in> set (new_ids (pass_calls e f p prev cb s)) \<longleftrightarrow> results s (t_file t) (t_id t) = None"
    using cn l count_list_0_iff [of "new_ids (pass_calls e f p prev cb s)" "t_id t"] by (auto split: if_splits)
  show "t_id t \<in> set (replaced_ids (pass_calls e f p prev cb s)) \<longleftrightarrow> results s (t_file t) (t_id t) \<noteq> None"
    using cr l count_list_0_iff [of "replaced_ids (pass_calls e f p prev cb s)" "t_id t"] by (auto split: if_splits)
qed

text \<open>The definitions of the example data, for evaluation.\<close>

lemmas example_defs = example_env_def test_at_def init_handler_def cached_tests_def rescanned_tests_def go_patterns_def

text \<open>
  A test that is started while a pass waits is started in the recorded tests of the
  pass too: \<open>update_positions\<close> on the cached tests of the scenario, then
  \<open>run_single\<close> of t2.
\<close>

lemma recorded_tests_follow_runs:
  "pending (run_single (example_env rescanned_tests (\<lambda>i. False)) ''t2'' ''a_test.go''
      (update_positions (example_env rescanned_tests (\<lambda>i. False)) ''a_test.go'' None
         (init_handler\<lparr>stored_tests := [''a_test.go'' \<mapsto> cached_tests]\<rparr>))) =
     [Launched (Runner ''a_test.go'' go_patterns
         [(''t1'', test_at ''t1'' ''a_test.go'' 10), (''t2'', (test_at ''t2'' ''a_test.go'' 20)\<lparr>t_running := 1\<rparr>)]
         None (Some [0, 1])) ''update_positions'',
      Launched (Run [''go'', ''test'', ''t2''] ((test_at ''t2'' ''a_test.go'' 20)\<lparr>t_running := 1\<rparr>) None) ''t2'']"
  by (simp add: run_single_def run_tests_def update_positions_def recorded_tests_def recorded_positions_def
        recorded_refs_def launch_def call_def register_started_def register_new_test_def stored_get_def
        Let_def example_defs)

text \<open>
  The second part rests on the unique ids: were the finder to report two tests with
  one id, the id would be reported as new twice.
\<close>

lemma repeated_id_new_twice:
  "''t1'' \<in> t_id ` set [test_at ''t1'' ''a_test.go'' 10, test_at ''t1'' ''a_test.go'' 30] \<and>
   ''t1'' \<notin> t_id ` set [] \<and>
   count_list
     (new_ids (pass_calls (example_env [test_at ''t1'' ''a_test.go'' 10, test_at ''t1'' ''a_test.go'' 30] (\<lambda>i. False))
        ''a_test.go'' go_patterns [] None init_handler)
      @ replaced_ids (pass_calls (example_env [test_at ''t1'' ''a_test.go'' 10, test_at ''t1'' ''a_test.go'' 30] (\<lambda>i. False))
        ''a_test.go'' go_patterns [] None init_handler)) ''t1'' = 2"
  by (simp add: pass_calls_eq recorded_tests_def loop_body_def callback_calls_def
       example_env_def test_at_def init_handler_def)

text \<open>The scenario of the spec: t2 is removed once, t3 is new once.\<close>

theorem exhaustive_diff_witness:
  "distinct (map t_id rescanned_tests) \<and>
   ''t2'' \<in> t_id ` set cached_tests - t_id ` set rescanned_tests \<and>
   count_list (removed_ids (pass_calls (example_env rescanned_tests (\<lambda>i. False))
        ''a_test.go'' go_patterns cached_tests None init_handler)) ''t2'' = 1 \<and>
   test_at ''t3'' ''a_test.go'' 20 \<in> set rescanned_tests \<and> ''t3'' \<notin> t_id ` set cached_tests \<and>
   count_list (new_ids (pass_calls (example_env rescanned_tests (\<lambda>i. False))
        ''a_test.go'' go_patterns cached_tests None init_handler)
     @ replaced_ids (pass_calls (example_env rescanned_tests (\<lambda>i. False))
        ''a_test.go'' go_patterns cached_tests None init_handler)) ''t3'' = 1 \<and>
   ''t3'' \<in> set (new_ids (pass_calls (example_env rescanned_tests (\<lambda>i. False))
        ''a_test.go'' go_patterns cached_tests None init_handler))"
proof -
  let ?e = "example_env rescanned_tests (\<lambda>i. False)"
  have f: "find_all ?e ''a_test.go'' go_patterns = rescanned_tests"
    by (simp add: example_env_def)
  have d: "distinct (map t_id rescanned_tests)"
    by (simp add: rescanned_tests_def test_at_def)
  have m: "''t2'' \<in> t_id ` set cached_tests - t_id ` set rescanned_tests"
    by (simp add: rescanned_tests_def cached_tests_def test_at_def)
  have n: "test_at ''t3'' ''a_test.go'' 20 \<in> set rescanned_tests"
    and n': "t_id (test_at ''t3'' ''a_test.go'' 20) \<notin> t_id ` set cached_tests"
    and r: "results init_handler (t_file (test_at ''t3'' ''a_test.go'' 20)) (t_id (test_at ''t3'' ''a_test.go'' 20)) = None"
    and i: "t_id (test_at ''t3'' ''a_test.go'' 20) = ''t3''"
    by (simp_all add: rescanned_tests_def cached_tests_def test_at_def init_handler_def)
  from d f have d': "distinct (map t_id (find_all ?e ''a_test.go'' go_patterns))" by simp
  note th = exhaustive_diff [of cached_tests ?e "''a_test.go''" go_patterns None init_handler, unfolded f]
  from th m have 1: "count_list (removed_ids (pass_calls ?e ''a_test.go'' go_patterns cached_tests None init_handler)) ''t2'' = 1"
    by blast
  from th d n n' r have 2: "count_list (new_ids (pass_calls ?e ''a_test.go'' go_patterns cached_tests None init_handler)
     @ replaced_ids (pass_calls ?e ''a_test.go'' go_patterns cached_tests None init_handler)) (t_id (test_at ''t3'' ''a_test.go'' 20)) = 1"
    and 3: "t_id (test_at ''t3'' ''a_test.go'' 20) \<in> set (new_ids (pass_calls ?e ''a_test.go'' go_patterns cached_tests None init_handler))"
    by blast+
  from d m 1 n n' 2 3 show ?thesis unfolding i by blast
qed

subsection \<open>Moved and reappearing tests\<close>

lemma recorded_map_of_aux:
  "map_of (foldl (\<lambda>d t. AList.update (t_id t) t d) d0 ts) = foldl (\<lambda>m t. m(t_id t \<mapsto> t)) (map_of d0) ts"
  by (induction ts arbitrary: d0) (simp_all add: AList.update_conv')

lemma foldl_upd_notin:
  "i \<notin> t_id ` set ts \<Longrightarrow> foldl (\<lambda>m t. m(t_id t \<mapsto> t)) m ts i = m i"
  by (induction ts arbitrary: m) auto

lemma foldl_upd_distinct:
  "distinct (map t_id ts) \<Longrightarrow> r \<in> set ts \<Longrightarrow> foldl (\<lambda>m t. m(t_id t \<mapsto> t)) m ts (t_id r) = Some r"
proof (induction ts arbitrary: m)
  case Nil
  then show ?case by simp
next
  case (Cons t ts)
  show ?case
  proof (cases "r = t")
    case True
    then have "t_id r \<notin> t_id ` set ts" using Cons.prems by auto
    then have "foldl (\<lambda>m t. m(t_id t \<mapsto> t)) (m(t_id t \<mapsto> t)) ts (t_id r) = (m(t_id t \<mapsto> t)) (t_id r)"
      by (rule foldl_upd_notin)
    then show ?thesis using True by (simp del: fun_upd_apply add: fun_upd_same)
  next
    case False
    then show ?thesis using Cons by simp
  qed
qed

lemma recorded_lookup_distinct:
  "distinct (map t_id prev) \<Longrightarrow> r \<in> set prev \<Longrightarrow> map_of (recorded_tests prev) (t_id r) = Some r"
  by (simp add: recorded_tests_def recorded_map_of_aux foldl_upd_distinct)

lemma loop_body_id [simp]: "t_id (fst (loop_body e res t recs)) = t_id t"
  by (simp add: loop_body_def Let_def split: option.splits)

lemma filter_id_distinct:
  "distinct (map t_id ts) \<Longrightarrow> t \<in> set ts \<Longrightarrow> (\<And>u. t_id (g u) = t_id u) \<Longrightarrow>
   filter (\<lambda>u. t_id u = t_id t) (map g ts) = [g t]"
proof (induction ts)
  case Nil
  then show ?case by simp
next
  case (Cons u ts)
  have none: "filter (\<lambda>u. t_id u = t_id t) (map g ts) = []" if h: "t_id t \<notin> t_id ` set ts"
  proof -
    have "t_id (g x) \<noteq> t_id t" if "x \<in> set ts" for x
      using that h Cons.prems(3) by (metis imageI)
    then show ?thesis by (simp add: filter_empty_conv)
  qed
  show ?case
  proof (cases "t = u")
    case True
    then show ?thesis using Cons.prems none by auto
  next
    case False
    then have "t \<in> set ts" using Cons.prems by simp
    moreover from this have "t_id u \<noteq> t_id t" using Cons.prems by (auto simp: image_iff)
    ultimately show ?thesis using Cons by simp
  qed
qed

lemma pass_stored:
  "stored_get (runner e f p recorded cb s) f = fst (runner_loop e (results s) (find_all e f p) recorded)"
  by (simp add: stored_get_def runner_stored)

lemma loop_body_moved:
  "map_of recs (t_id t) = Some r \<Longrightarrow> t_line r \<noteq> t_line t \<Longrightarrow>
   loop_body e res t recs =
     (t\<lparr>t_running := (if is_running e (t_id t) then 1 else 0)\<rparr>,
      [ProcessMove (t\<lparr>t_running := (if is_running e (t_id t) then 1 else 0)\<rparr>)],
      AList.delete (t_id t) recs)"
  by (simp add: loop_body_def Let_def)

text \<open>
  C2. The ids of the tests of a file are unique, in the previous snapshot and in the
  newly discovered list. A test whose id is in both and whose line differs is then
  reported by exactly one move notification, which carries the test with
  \<open>running\<close> set from the process manager's \<open>is_running\<close>; it is reported neither
  as removed nor as new nor as replaced, and the snapshot after the pass holds the test
  with that \<open>running\<close> value.
\<close>

theorem identity_stability:
  assumes "distinct (map t_id prev)" and "distinct (map t_id (find_all e f p))"
    and "r \<in> set prev" and "t \<in> set (find_all e f p)"
    and "t_id r = t_id t" and "t_line r \<noteq> t_line t"
  shows "count_list (moved_ids (pass_calls e f p prev cb s)) (t_id t) = 1 \<and>
         ProcessMove (t\<lparr>t_running := (if is_running e (t_id t) then 1 else 0)\<rparr>) \<in> set (pass_calls e f p prev cb s) \<and>
         t_id t \<notin> set (removed_ids (pass_calls e f p prev cb s)) \<and>
         t_id t \<notin> set (new_ids (pass_calls e f p prev cb s)) \<and>
         t_id t \<notin> set (replaced_ids (pass_calls e f p prev cb s)) \<and>
         filter (\<lambda>u. t_id u = t_id t) (stored_get (runner e f p (recorded_tests prev) cb s) f) =
           [t\<lparr>t_running := (if is_running e (t_id t) then 1 else 0)\<rparr>]"
proof -
  let ?C = "pass_calls e f p prev cb s"
  let ?t' = "t\<lparr>t_running := (if is_running e (t_id t) then 1 else 0)\<rparr>"
  note d = assms(2)
  have l: "map_of (recorded_tests prev) (t_id t) = Some r"
    using recorded_lookup_distinct [OF assms(1) assms(3)] assms(5) by simp
  have b: "loop_body e (results s) t (recorded_tests prev) =
            (?t', [ProcessMove ?t'], AList.delete (t_id t) (recorded_tests prev))"
    using l assms(6) by (rule loop_body_moved)
  have 1: "count_list (moved_ids ?C) (t_id t) = 1"
    using l assms(6) by (simp only: pass_ids(4) [OF d] count_concat_if [OF d assms(4)]) simp
  have "ProcessMove ?t' \<in> set (fst (snd (loop_body e (results s) t (recorded_tests prev))))"
    using b by simp
  then have 2: "ProcessMove ?t' \<in> set ?C"
    using assms(4) by (auto simp: pass_calls_eq runner_loop_closed [OF d])
  have 3: "t_id t \<notin> set (removed_ids ?C)"
    using assms(4) by (simp add: pass_ids(1) [OF d])
  have "count_list (new_ids ?C) (t_id t) = 0"
    using l by (simp only: pass_ids(2) [OF d] count_concat_if [OF d assms(4)]) simp
  then have 4: "t_id t \<notin> set (new_ids ?C)" by (simp add: count_list_0_iff)
  have "count_list (replaced_ids ?C) (t_id t) = 0"
    using l by (simp only: pass_ids(3) [OF d] count_concat_if [OF d assms(4)]) simp
  then have 5: "t_id t \<notin> set (replaced_ids ?C)" by (simp add: count_list_0_iff)
  have "filter (\<lambda>u. t_id u = t_id t) (map (\<lambda>t. fst (loop_body e (results s) t (recorded_tests prev))) (find_all e f p))
          = [fst (loop_body e (results s) t (recorded_tests prev))]"
    using d assms(4) by (rule filter_id_distinct) simp
  then have 6: "filter (\<lambda>u. t_id u = t_id t) (stored_get (runner e f p (recorded_tests prev) cb s) f) = [?t']"
    using b by (simp add: pass_stored runner_loop_closed [OF d])
  from 1 2 3 4 5 6 show ?thesis by blast
qed

lemma runner_loop_replace:
  "t \<in> set ts \<Longrightarrow> t_id t \<notin> fst ` set recs \<Longrightarrow> res (t_file t) (t_id t) = Some r \<Longrightarrow>
   ProcessReplace t r \<in> set (fst (snd (runner_loop e res ts recs)))"
proof (induction ts arbitrary: recs)
  case Nil
  then show ?case by simp
next
  case (Cons u ts)
  obtain u' calls recs' where b: "loop_body e res u recs = (u', calls, recs')"
    by (cases "loop_body e res u recs") auto
  then have rr: "recs' = AList.delete (t_id u) recs"
    using loop_body_recs [of e res u recs] by simp
  obtain ts' calls' recs'' where l: "runner_loop e res ts recs' = (ts', calls', recs'')"
    by (cases "runner_loop e res ts recs'") auto
  show ?case
  proof (cases "t = u")
    case True
    have "map_of recs (t_id t) = None"
      using Cons.prems(2) by (simp add: map_of_eq_None_iff)
    then have "calls = [ProcessReplace t r]"
      using b True Cons.prems(3) by (auto simp: loop_body_def)
    then show ?thesis using b l by simp
  next
    case False
    then have "t \<in> set ts" using Cons.prems by simp
    moreover have "t_id t \<notin> fst ` set recs'"
      using Cons.prems(2) rr AList.dom_delete_subset [of "t_id u" recs] by auto
    ultimately have "ProcessReplace t r \<in> set (fst (snd (runner_loop e res ts recs')))"
      using Cons.IH Cons.prems(3) by blast
    then show ?thesis using b l by simp
  qed
qed

lemma runner_loop_new:
  "ProcessNew u \<in> set (fst (snd (runner_loop e res ts recs))) \<Longrightarrow> res (t_file u) (t_id u) = None"
proof (induction ts arbitrary: recs)
  case Nil
  then show ?case by simp
next
  case (Cons v ts)
  obtain v' calls recs' where b: "loop_body e res v recs = (v', calls, recs')"
    by (cases "loop_body e res v recs") auto
  obtain ts' calls' recs'' where l: "runner_loop e res ts recs' = (ts', calls', recs'')"
    by (cases "runner_loop e res ts recs'") auto
  from Cons.prems b l have "ProcessNew u \<in> set calls \<or> ProcessNew u \<in> set calls'" by simp
  then show ?case
  proof
    assume "ProcessNew u \<in> set calls"
    then show ?thesis using b by (auto simp: loop_body_def Let_def split: option.splits if_splits)
  next
    assume "ProcessNew u \<in> set calls'"
    then show ?thesis using Cons.IH [of recs'] l by simp
  qed
qed

lemma callback_calls_no_new: "ProcessNew u \<notin> set (callback_calls cb)"
  by (simp add: callback_calls_def split: option.splits callback.splits)

text \<open>
  C3. A newly discovered test whose id is not in the previous snapshot and for which
  the result cache holds a result under the test's file and id is reported by a replace
  notification that carries that result, and no new-test notification is sent for that
  file and id.
\<close>

theorem reappearance_restores_result:
  assumes "t \<in> set (find_all e f p)" and "t_id t \<notin> t_id ` set prev"
    and "results s (t_file t) (t_id t) = Some r"
  shows "ProcessReplace t r \<in> set (pass_calls e f p prev cb s) \<and>
         \<not> (\<exists>u. ProcessNew u \<in> set (pass_calls e f p prev cb s) \<and> t_file u = t_file t \<and> t_id u = t_id t)"
proof
  have "ProcessReplace t r \<in> set (fst (snd (runner_loop e (results s) (find_all e f p) (recorded_tests prev))))"
    using assms by (intro runner_loop_replace) (simp_all add: recorded_tests_keys)
  then show "ProcessReplace t r \<in> set (pass_calls e f p prev cb s)"
    by (simp add: pass_calls_eq)
  show "\<not> (\<exists>u. ProcessNew u \<in> set (pass_calls e f p prev cb s) \<and> t_file u = t_file t \<and> t_id u = t_id t)"
  proof
    assume "\<exists>u. ProcessNew u \<in> set (pass_calls e f p prev cb s) \<and> t_file u = t_file t \<and> t_id u = t_id t"
    then obtain u where u: "ProcessNew u \<in> set (pass_calls e f p prev cb s)"
      and eq: "t_file u = t_file t" "t_id u = t_id t" by blast
    from u have "ProcessNew u \<in> set (fst (snd (runner_loop e (results s) (find_all e f p) (recorded_tests prev))))"
      using callback_calls_no_new [of u cb] by (auto simp: pass_calls_eq)
    then have "results s (t_file u) (t_id u) = None" by (rule runner_loop_new)
    with eq assms(3) show False by simp
  qed
qed


text \<open>
  The theorem rests on the unique ids. With t1 at line 10 in the snapshot and t1 found
  at lines 10 and 30, the test at line 30 is reported as new and nothing is moved; with
  t1 at lines 10 and 30 in the snapshot and t1 found at line 30, nothing is reported.
\<close>

lemma repeated_id_not_moved:
  "test_at ''t1'' ''a_test.go'' 10 \<in> set [test_at ''t1'' ''a_test.go'' 10] \<and>
   test_at ''t1'' ''a_test.go'' 30 \<in> set [test_at ''t1'' ''a_test.go'' 10, test_at ''t1'' ''a_test.go'' 30] \<and>
   t_line (test_at ''t1'' ''a_test.go'' 10) \<noteq> t_line (test_at ''t1'' ''a_test.go'' 30) \<and>
   pass_calls (example_env [test_at ''t1'' ''a_test.go'' 10, test_at ''t1'' ''a_test.go'' 30] (\<lambda>i. False))
       ''a_test.go'' go_patterns [test_at ''t1'' ''a_test.go'' 10] None init_handler =
     [StoreSortedIds ''a_test.go'' [''t1'', ''t1''], ProcessNew (test_at ''t1'' ''a_test.go'' 30), PositionsUpdate] \<and>
   pass_calls (example_env [test_at ''t1'' ''a_test.go'' 30] (\<lambda>i. False))
       ''a_test.go'' go_patterns [test_at ''t1'' ''a_test.go'' 10, test_at ''t1'' ''a_test.go'' 30] None init_handler =
     [StoreSortedIds ''a_test.go'' [''t1''], PositionsUpdate]"
  by (simp add: pass_calls_eq recorded_tests_def loop_body_def callback_calls_def
       example_env_def test_at_def init_handler_def)

text \<open>The scenario of the spec, with t1 running: t1 moves from line 10 to line 15.\<close>

theorem identity_stability_witness:
  "distinct (map t_id cached_tests) \<and> distinct (map t_id rescanned_tests) \<and>
   test_at ''t1'' ''a_test.go'' 10 \<in> set cached_tests \<and>
   test_at ''t1'' ''a_test.go'' 15 \<in> set rescanned_tests \<and>
   count_list (moved_ids (pass_calls (example_env rescanned_tests (\<lambda>i. i = ''t1''))
       ''a_test.go'' go_patterns cached_tests None init_handler)) ''t1'' = 1 \<and>
   ProcessMove ((test_at ''t1'' ''a_test.go'' 15)\<lparr>t_running := 1\<rparr>)
     \<in> set (pass_calls (example_env rescanned_tests (\<lambda>i. i = ''t1''))
       ''a_test.go'' go_patterns cached_tests None init_handler) \<and>
   ''t1'' \<notin> set (removed_ids (pass_calls (example_env rescanned_tests (\<lambda>i. i = ''t1''))
       ''a_test.go'' go_patterns cached_tests None init_handler)) \<and>
   ''t1'' \<notin> set (new_ids (pass_calls (example_env rescanned_tests (\<lambda>i. i = ''t1''))
       ''a_test.go'' go_patterns cached_tests None init_handler)) \<and>
   filter (\<lambda>u. t_id u = ''t1'')
     (stored_get (runner (example_env rescanned_tests (\<lambda>i. i = ''t1'')) ''a_test.go'' go_patterns
        (recorded_tests cached_tests) None init_handler) ''a_test.go'') =
     [(test_at ''t1'' ''a_test.go'' 15)\<lparr>t_running := 1\<rparr>]"
proof -
  let ?e = "example_env rescanned_tests (\<lambda>i. i = ''t1'')"
  let ?r = "test_at ''t1'' ''a_test.go'' 10"
  let ?t = "test_at ''t1'' ''a_test.go'' 15"
  have f: "find_all ?e ''a_test.go'' go_patterns = rescanned_tests"
    by (simp add: example_env_def)
  have d1: "distinct (map t_id cached_tests)" and d2: "distinct (map t_id rescanned_tests)"
    and m1: "?r \<in> set cached_tests" and m2: "?t \<in> set rescanned_tests"
    and i: "t_id ?r = t_id ?t" and l: "t_line ?r \<noteq> t_line ?t"
    by (simp_all add: rescanned_tests_def cached_tests_def test_at_def)
  have simps: "t_id ?t = ''t1''" "(if is_running ?e ''t1'' then 1 else 0) = (1::int)"
    by (simp_all add: test_at_def example_env_def)
  from d2 m2 f have d2': "distinct (map t_id (find_all ?e ''a_test.go'' go_patterns))"
    and m2': "?t \<in> set (find_all ?e ''a_test.go'' go_patterns)" by simp_all
  note th = identity_stability [OF d1 d2' m1 m2' i l, of None init_handler, unfolded simps]
  from d1 d2 m1 m2 th show ?thesis by blast
qed

text \<open>The scenario of the spec, with a cached result for t3.\<close>

theorem reappearance_restores_result_witness:
  "test_at ''t3'' ''a_test.go'' 20 \<in> set rescanned_tests \<and>
   ''t3'' \<notin> t_id ` set cached_tests \<and>
   results (results_add ''a_test.go'' \<lparr>r_id = ''t3'', r_file = ''a_test.go'', r_code = 1, r_output = ''fail''\<rparr> init_handler)
       ''a_test.go'' ''t3'' = Some \<lparr>r_id = ''t3'', r_file = ''a_test.go'', r_code = 1, r_output = ''fail''\<rparr> \<and>
   ProcessReplace (test_at ''t3'' ''a_test.go'' 20) \<lparr>r_id = ''t3'', r_file = ''a_test.go'', r_code = 1, r_output = ''fail''\<rparr>
     \<in> set (pass_calls (example_env rescanned_tests (\<lambda>i. False)) ''a_test.go'' go_patterns cached_tests None
          (results_add ''a_test.go'' \<lparr>r_id = ''t3'', r_file = ''a_test.go'', r_code = 1, r_output = ''fail''\<rparr> init_handler)) \<and>
   ProcessNew (test_at ''t3'' ''a_test.go'' 20)
     \<notin> set (pass_calls (example_env rescanned_tests (\<lambda>i. False)) ''a_test.go'' go_patterns cached_tests None
          (results_add ''a_test.go'' \<lparr>r_id = ''t3'', r_file = ''a_test.go'', r_code = 1, r_output = ''fail''\<rparr> init_handler))"
proof -
  let ?e = "example_env rescanned_tests (\<lambda>i. False)"
  let ?t = "test_at ''t3'' ''a_test.go'' 20"
  let ?r = "\<lparr>r_id = ''t3'', r_file = ''a_test.go'', r_code = 1, r_output = ''fail''\<rparr>"
  let ?s = "results_add ''a_test.go'' ?r init_handler"
  have f: "find_all ?e ''a_test.go'' go_patterns = rescanned_tests"
    by (simp add: example_env_def)
  have m: "?t \<in> set rescanned_tests" and n: "''t3'' \<notin> t_id ` set cached_tests"
    and i: "t_id ?t = ''t3''" and fl: "t_file ?t = ''a_test.go''"
    by (simp_all add: rescanned_tests_def cached_tests_def test_at_def)
  have c: "results ?s ''a_test.go'' ''t3'' = Some ?r"
    by (simp add: results_add_def)
  from m f have m': "?t \<in> set (find_all ?e ''a_test.go'' go_patterns)" by simp
  from n i have n': "t_id ?t \<notin> t_id ` set cached_tests" by simp
  from c i fl have c': "results ?s (t_file ?t) (t_id ?t) = Some ?r" by simp
  note th = reappearance_restores_result [OF m' n' c', of None]
  from m n c th show ?thesis by blast
qed

subsection \<open>Reconciliation without a file or patterns\<close>

text \<open>
  C7. For a file that is not on disk, and for a file whose patterns cannot be had (the
  call raises, or returns None or empty patterns), \<open>update_positions\<close> returns with
  the handler unchanged: nothing is launched, no state is written and no call is made
  on the editor.
\<close>

theorem update_positions_unavailable:
  assumes "\<not> isfile e f \<or> (\<exists>err. get_patterns e f = Inl err) \<or> get_patterns e f = Inr None
           \<or> get_patterns e f = Inr (Some [])"
  shows "update_positions e f cb s = s"
  using assms by (auto simp: update_positions_def)

text \<open>
  A file that is not on disk, patterns that raise and patterns that are empty.
\<close>

theorem update_positions_unavailable_witness:
  "\<not> isfile no_file_env ''a_test.go'' \<and>
   update_positions no_file_env ''a_test.go'' None init_handler = init_handler \<and>
   get_patterns ((example_env [] (\<lambda>i. False))\<lparr>get_patterns := (\<lambda>f. Inl VimError)\<rparr>) ''a_test.go'' = Inl VimError \<and>
   update_positions ((example_env [] (\<lambda>i. False))\<lparr>get_patterns := (\<lambda>f. Inl VimError)\<rparr>) ''a_test.go''
      (Some (RunAllAfterUpdate ''a_test.go'')) init_handler = init_handler \<and>
   get_patterns ((example_env [] (\<lambda>i. False))\<lparr>get_patterns := (\<lambda>f. Inr (Some []))\<rparr>) ''a_test.go'' = Inr (Some []) \<and>
   update_positions ((example_env [] (\<lambda>i. False))\<lparr>get_patterns := (\<lambda>f. Inr (Some []))\<rparr>) ''a_test.go''
      None init_handler = init_handler"
proof -
  have 1: "\<not> isfile no_file_env ''a_test.go''"
    by (simp add: no_file_env_def example_env_def)
  have 2: "get_patterns ((example_env [] (\<lambda>i. False))\<lparr>get_patterns := (\<lambda>f. Inl VimError)\<rparr>) ''a_test.go'' = Inl VimError"
    by simp
  have 3: "get_patterns ((example_env [] (\<lambda>i. False))\<lparr>get_patterns := (\<lambda>f. Inr (Some []))\<rparr>) ''a_test.go'' = Inr (Some [])"
    by simp
  show ?thesis
    using 1 2 3
      update_positions_unavailable [of no_file_env "''a_test.go''" None init_handler]
      update_positions_unavailable [of "(example_env [] (\<lambda>i. False))\<lparr>get_patterns := (\<lambda>f. Inl VimError)\<rparr>"
        "''a_test.go''" "Some (RunAllAfterUpdate ''a_test.go'')" init_handler]
      update_positions_unavailable [of "(example_env [] (\<lambda>i. False))\<lparr>get_patterns := (\<lambda>f. Inr (Some []))\<rparr>"
        "''a_test.go''" None init_handler]
    by blast
qed

subsection \<open>Stopping without a payload\<close>

text \<open>
  C8. \<open>stop_test\<close> with no payload, or with an empty payload, leaves the handler
  unchanged: the snapshot, the result cache and the tests are as before, no task is
  stopped and no call is made on the editor.
\<close>

theorem stop_test_no_payload:
  "stop_test None s = Inr s \<and> stop_test (Some []) s = Inr s"
  by (simp add: stop_test_def)

subsection \<open>The order of commit and notifications\<close>

lemma runner_notify_log:
  "vim_log (runner_notify e f recorded cb s) =
     vim_log s
       @ fst (snd (runner_loop e (results s) (stored_get s f) recorded))
       @ map ProcessClear (map snd (snd (snd (runner_loop e (results s) (stored_get s f) recorded))))
       @ [PositionsUpdate]
       @ callback_calls cb"
  by (simp add: runner_notify_def runner_tests_def call_def Let_def invoke_log callback_calls_def
        split: prod.splits option.splits callback.splits)

lemma runner_loop_ids: "map t_id (fst (runner_loop e res ts recs)) = map t_id ts"
proof (induction ts arbitrary: recs)
  case Nil
  show ?case by simp
next
  case (Cons t ts)
  obtain t' calls recs' where b: "loop_body e res t recs = (t', calls, recs')"
    by (cases "loop_body e res t recs") auto
  then have i: "t_id t' = t_id t" using loop_body_id [of e res t recs] by simp
  obtain ts' calls' recs'' where l: "runner_loop e res ts recs' = (ts', calls', recs'')"
    by (cases "runner_loop e res ts recs'") auto
  then have "map t_id ts' = map t_id ts" using Cons.IH [of recs'] by simp
  then show ?case using b l i by simp
qed

lemma loop_body_test:
  "fst (loop_body e res t recs) = t \<or>
   (fst (loop_body e res t recs) = t\<lparr>t_running := (if is_running e (t_id t) then 1 else 0)\<rparr> \<and>
    ProcessMove (fst (loop_body e res t recs)) \<in> set (fst (snd (loop_body e res t recs))))"
  by (simp add: loop_body_def Let_def split: option.splits)

lemma runner_loop_tests:
  "list_all2
     (\<lambda>t t'. t' = t \<or>
        (t' = t\<lparr>t_running := (if is_running e (t_id t) then 1 else 0)\<rparr> \<and>
         ProcessMove t' \<in> set (fst (snd (runner_loop e res ts recs)))))
     ts (fst (runner_loop e res ts recs))"
proof (induction ts arbitrary: recs)
  case Nil
  show ?case by simp
next
  case (Cons t ts)
  obtain t' calls recs' where b: "loop_body e res t recs = (t', calls, recs')"
    by (cases "loop_body e res t recs") auto
  obtain ts' calls' recs'' where l: "runner_loop e res ts recs' = (ts', calls', recs'')"
    by (cases "runner_loop e res ts recs'") auto
  have h: "t' = t \<or> (t' = t\<lparr>t_running := (if is_running e (t_id t) then 1 else 0)\<rparr> \<and> ProcessMove t' \<in> set calls)"
    using loop_body_test [of e res t recs] b by simp
  have "list_all2
     (\<lambda>t t'. t' = t \<or>
        (t' = t\<lparr>t_running := (if is_running e (t_id t) then 1 else 0)\<rparr> \<and> ProcessMove t' \<in> set calls'))
     ts ts'"
    using Cons.IH [of recs'] l by simp
  then have "list_all2
     (\<lambda>t t'. t' = t \<or>
        (t' = t\<lparr>t_running := (if is_running e (t_id t) then 1 else 0)\<rparr> \<and> ProcessMove t' \<in> set (calls @ calls')))
     ts ts'"
    by (rule list_all2_mono) auto
  then show ?case using b l h by auto
qed

text \<open>
  C9 (amended). A pass stores the newly discovered list as the snapshot of the file
  first, when only the sorted ids have been sent; every per-test notification of the
  pass, the removals included, and the positions-updated event are sent after that.
  The rest of the pass leaves every test of the stored list as it is, but for the tests
  it reports as moved, on which it sets \<open>running\<close> from \<open>is_running\<close>.
\<close>

theorem snapshot_commit_order:
  "runner e f p recorded cb s = runner_notify e f recorded cb (runner_commit f (find_all e f p) s) \<and>
   stored_tests (runner_commit f (find_all e f p) s) f = Some (find_all e f p) \<and>
   emitted s (runner_commit f (find_all e f p) s) = [StoreSortedIds f (map t_id (find_all e f p))] \<and>
   emitted (runner_commit f (find_all e f p) s) (runner e f p recorded cb s) =
     fst (snd (runner_loop e (results s) (find_all e f p) recorded))
       @ map ProcessClear (map snd (snd (snd (runner_loop e (results s) (find_all e f p) recorded))))
       @ [PositionsUpdate] @ callback_calls cb \<and>
   list_all2
     (\<lambda>t t'. t' = t \<or>
        (t' = t\<lparr>t_running := (if is_running e (t_id t) then 1 else 0)\<rparr> \<and>
         ProcessMove t' \<in> set (emitted (runner_commit f (find_all e f p) s) (runner e f p recorded cb s))))
     (find_all e f p) (stored_get (runner e f p recorded cb s) f)"
proof (intro conjI)
  let ?s1 = "runner_commit f (find_all e f p) s"
  let ?L = "runner_loop e (results s) (find_all e f p) recorded"
  show "runner e f p recorded cb s = runner_notify e f recorded cb ?s1"
    by (simp add: runner_def)
  show "stored_tests ?s1 f = Some (find_all e f p)"
    by (simp add: runner_commit_def call_def)
  show "emitted s ?s1 = [StoreSortedIds f (map t_id (find_all e f p))]"
    by (simp add: runner_commit_def call_def emitted_def)
  have r: "results ?s1 = results s" and g: "stored_get ?s1 f = find_all e f p"
    by (simp_all add: runner_commit_def call_def stored_get_def)
  show em: "emitted ?s1 (runner e f p recorded cb s) =
     fst (snd ?L) @ map ProcessClear (map snd (snd (snd ?L))) @ [PositionsUpdate] @ callback_calls cb"
    by (simp add: runner_def emitted_def runner_notify_log r g)
  have "list_all2
     (\<lambda>t t'. t' = t \<or>
        (t' = t\<lparr>t_running := (if is_running e (t_id t) then 1 else 0)\<rparr> \<and>
         ProcessMove t' \<in> set (fst (snd ?L))))
     (find_all e f p) (fst ?L)"
    by (rule runner_loop_tests)
  then have "list_all2
     (\<lambda>t t'. t' = t \<or>
        (t' = t\<lparr>t_running := (if is_running e (t_id t) then 1 else 0)\<rparr> \<and>
         ProcessMove t' \<in> set (emitted ?s1 (runner e f p recorded cb s))))
     (find_all e f p) (fst ?L)"
    unfolding em by (rule list_all2_mono) auto
  then show "list_all2
     (\<lambda>t t'. t' = t \<or>
        (t' = t\<lparr>t_running := (if is_running e (t_id t) then 1 else 0)\<rparr> \<and>
         ProcessMove t' \<in> set (emitted ?s1 (runner e f p recorded cb s))))
     (find_all e f p) (stored_get (runner e f p recorded cb s) f)"
    by (simp add: pass_stored)
qed

text \<open>
  C9 as stated fails: in the scenario of the spec the snapshot already holds the
  re-scanned list, not the cached one, in the state from which the move, new and
  removal notifications are sent.
\<close>

theorem snapshot_commit_order_counterexample:
  "stored_tests (init_handler\<lparr>stored_tests := [''a_test.go'' \<mapsto> cached_tests]\<rparr>) ''a_test.go'' = Some cached_tests \<and>
   stored_tests (runner_commit ''a_test.go'' rescanned_tests
      (init_handler\<lparr>stored_tests := [''a_test.go'' \<mapsto> cached_tests]\<rparr>)) ''a_test.go'' = Some rescanned_tests \<and>
   rescanned_tests \<noteq> cached_tests \<and>
   emitted (runner_commit ''a_test.go'' rescanned_tests (init_handler\<lparr>stored_tests := [''a_test.go'' \<mapsto> cached_tests]\<rparr>))
     (runner_notify (example_env rescanned_tests (\<lambda>i. False)) ''a_test.go'' (recorded_tests cached_tests) None
        (runner_commit ''a_test.go'' rescanned_tests (init_handler\<lparr>stored_tests := [''a_test.go'' \<mapsto> cached_tests]\<rparr>))) =
     [ProcessMove (test_at ''t1'' ''a_test.go'' 15), ProcessNew (test_at ''t3'' ''a_test.go'' 20),
      ProcessClear (test_at ''t2'' ''a_test.go'' 20), PositionsUpdate]"
  by (simp add: emitted_def runner_notify_log runner_commit_def call_def stored_get_def recorded_tests_def
        loop_body_def callback_calls_def Let_def example_defs)


subsection \<open>Running a single test\<close>

lemma run_tests_loop_Nil_filter:
  "test_id \<notin> t_id ` set ts \<Longrightarrow> filter (\<lambda>(i, t). t_id t = test_id) (enumerate n ts) = []"
  by (induction ts arbitrary: n) auto

lemma launch_quiet [simp]:
  "pass_launches (launch (Run cmd t root) job s) = pass_launches s"
  "reinvocation_calls (launch (Run cmd t root) job s) = reinvocation_calls s"
  by (simp_all add: launch_def pass_launches_def reinvocation_calls_def)

lemma register_started_quiet [simp]:
  "pass_launches (snd (register_started t s)) = pass_launches s"
  "reinvocation_calls (snd (register_started t s)) = reinvocation_calls s"
  "pending (snd (register_started t s)) = pending s"
  by (simp_all add: register_started_def register_new_test_def call_def pass_launches_def
        reinvocation_calls_def Let_def)

lemma stored_update_quiet [simp]:
  "pass_launches (s\<lparr>stored_tests := m\<rparr>) = pass_launches s"
  "reinvocation_calls (s\<lparr>stored_tests := m\<rparr>) = reinvocation_calls s"
  by (simp_all add: pass_launches_def reinvocation_calls_def)

lemma pending_update_quiet [simp]:
  "pass_launches (s\<lparr>pending := ws\<rparr>) = pass_launches s"
  "reinvocation_calls (s\<lparr>pending := ws\<rparr>) = reinvocation_calls s"
  by (simp_all add: pass_launches_def reinvocation_calls_def)

lemma run_tests_loop_quiet:
  "pass_launches (run_tests_loop e f root xs s) = pass_launches s \<and>
   reinvocation_calls (run_tests_loop e f root xs s) = reinvocation_calls s"
proof (induction xs arbitrary: s)
  case Nil
  show ?case by simp
next
  case (Cons x xs)
  obtain i t where x: "x = (i, t)" by (cases x)
  obtain t' s1 where r: "register_started t s = (t', s1)" by (cases "register_started t s")
  then have q: "pass_launches s1 = pass_launches s" "reinvocation_calls s1 = reinvocation_calls s"
    using register_started_quiet [of t s] by simp_all
  show ?case using x r q Cons.IH by (simp add: Let_def)
qed

text \<open>
  C10. \<open>run_single\<close> never launches a reconciliation pass and never schedules a
  re-invocation; when the snapshot of the file has no test with the given id (it is
  absent, empty or has other ids only), \<open>run_single\<close> leaves the handler unchanged:
  no run is launched, no notification is sent, and the snapshot and the result cache
  are as before.
\<close>

theorem run_single_no_refresh:
  "pass_launches (run_single e test_id f s) = pass_launches s \<and>
   reinvocation_calls (run_single e test_id f s) = reinvocation_calls s \<and>
   (test_id \<notin> t_id ` set (stored_get s f) \<longrightarrow> run_single e test_id f s = s)"
  by (simp add: run_single_def run_tests_def run_tests_loop_quiet run_tests_loop_Nil_filter)

text \<open>
  A snapshot without the id, and no snapshot at all.
\<close>

theorem run_single_no_refresh_witness:
  "''t9'' \<notin> t_id ` set (stored_get (init_handler\<lparr>stored_tests := [''a_test.go'' \<mapsto> cached_tests]\<rparr>) ''a_test.go'') \<and>
   run_single (example_env rescanned_tests (\<lambda>i. False)) ''t9'' ''a_test.go''
      (init_handler\<lparr>stored_tests := [''a_test.go'' \<mapsto> cached_tests]\<rparr>) =
     init_handler\<lparr>stored_tests := [''a_test.go'' \<mapsto> cached_tests]\<rparr> \<and>
   ''t1'' \<notin> t_id ` set (stored_get init_handler ''a_test.go'') \<and>
   run_single (example_env rescanned_tests (\<lambda>i. False)) ''t1'' ''a_test.go'' init_handler = init_handler"
proof -
  have 1: "''t9'' \<notin> t_id ` set (stored_get (init_handler\<lparr>stored_tests := [''a_test.go'' \<mapsto> cached_tests]\<rparr>) ''a_test.go'')"
    by (simp add: stored_get_def cached_tests_def test_at_def)
  have 2: "''t1'' \<notin> t_id ` set (stored_get init_handler ''a_test.go'')"
    by (simp add: stored_get_def init_handler_def)
  show ?thesis
    using 1 2
      run_single_no_refresh [of "example_env rescanned_tests (\<lambda>i. False)" "''t9''" "''a_test.go''"
        "init_handler\<lparr>stored_tests := [''a_test.go'' \<mapsto> cached_tests]\<rparr>"]
      run_single_no_refresh [of "example_env rescanned_tests (\<lambda>i. False)" "''t1''" "''a_test.go''" init_handler]
    by blast
qed

subsection \<open>Results and their presentation\<close>

text \<open>
  C6. Registering a result sends the exit notification and, when output is shown on
  run and the result has output, schedules the presentation; it opens nothing itself.
  The scheduled presentation, run later in an environment \<open>e'\<close> and a state \<open>s'\<close>,
  opens the output only if the exit code is not zero, the current buffer is the file of
  the result, and the nearest test to the buffer's line, looked up without \<open>strict\<close>
  in the snapshot of \<open>s'\<close>, has the id of the result; otherwise it makes no call.
\<close>

theorem output_presentation:
  "emitted s (register_result t r s) =
     ProcessExit t r # (if show_on_run s \<and> r_output r \<noteq> [] then [Schedule (SPresentOutput r)] else []) \<and>
   (case exec_work e' (Scheduled (SPresentOutput r)) s' of Inl err \<Rightarrow> [] | Inr s'' \<Rightarrow> emitted s' s'') =
     (if r_code r \<noteq> 0 \<and> expand_current e' = r_file r \<and> getbufinfo e' (r_file r) \<noteq> [] \<and>
         map_option t_id (get_nearest_test e' (hd (getbufinfo e' (r_file r))) (r_file r) False s') = Some (r_id r)
      then [OutputOpen r] else [])"
proof
  show "emitted s (register_result t r s) =
     ProcessExit t r # (if show_on_run s \<and> r_output r \<noteq> [] then [Schedule (SPresentOutput r)] else [])"
    by (simp add: register_result_def results_add_def call_def schedule_def emitted_def Let_def)
  show "(case exec_work e' (Scheduled (SPresentOutput r)) s' of Inl err \<Rightarrow> [] | Inr s'' \<Rightarrow> emitted s' s'') =
     (if r_code r \<noteq> 0 \<and> expand_current e' = r_file r \<and> getbufinfo e' (r_file r) \<noteq> [] \<and>
         map_option t_id (get_nearest_test e' (hd (getbufinfo e' (r_file r))) (r_file r) False s') = Some (r_id r)
      then [OutputOpen r] else [])"
    by (cases "getbufinfo e' (r_file r)")
       (auto simp: present_output_def call_def emitted_def split: option.splits)
qed

subsection \<open>External start and result\<close>

text \<open>
  C5 (amended). After \<open>external_start\<close> with the payload of the spec and
  \<open>external_result\<close> with the same payload, exit code 1 and output \<open>fail\<close>, the
  result cache holds the result with code 1 and output \<open>fail\<close> under file \<open>f\<close> and
  id \<open>x\<close>, the live-output buffer of \<open>x\<close> is cleared, and the editor has been sent
  the start and the exit notification. The handler clears no running flag: the test of
  the exit notification is the one built from the payload, with \<open>running = 1\<close>, and
  the snapshot is as it was.
\<close>

theorem external_round_trip:
  "\<exists>s1 s2. external_start external_payload out s = Inr s1 \<and>
     external_result external_payload 1 ''fail'' s1 = Inr s2 \<and>
     results_get s2 ''f'' ''x'' = Some external_fail \<and>
     external_outputs s2 ''x'' = None \<and>
     emitted s s2 = [ProcessStart external_test, ProcessExit external_test external_fail]
        @ (if show_on_run s then [Schedule (SPresentOutput external_fail)] else []) \<and>
     t_running external_test = 1 \<and>
     stored_tests s2 = stored_tests s"
proof -
  have T: "Test external_payload = Inr external_test"
    by (auto simp: Test_def external_payload_def external_test_def test_fields_def)
  show ?thesis
    by (simp add: external_start_def external_result_def T register_started_def register_new_test_def
          register_result_def results_add_def results_get_def call_def schedule_def emitted_def
          register_external_output_def clear_external_output_def Let_def external_test_def external_fail_def)
qed

text \<open>
  C5 as stated fails in its last part. On a fresh handler the only test \<open>x\<close> the
  handler has is the one it built from the payload and sent in the exit notification,
  with \<open>running = 1\<close>. On a handler whose snapshot holds \<open>x\<close> with \<open>running = 1\<close>,
  as \<open>run_single\<close> leaves it, the snapshot still holds it with \<open>running = 1\<close> after
  the external result.
\<close>

theorem external_round_trip_counterexample:
  "external_start external_payload [] init_handler =
     Inr (init_handler\<lparr>registered := [external_test], vim_log := [ProcessStart external_test]\<rparr>) \<and>
   map_sum id vim_log (external_result external_payload 1 ''fail''
       (init_handler\<lparr>registered := [external_test], vim_log := [ProcessStart external_test]\<rparr>)) =
     Inr [ProcessStart external_test, ProcessExit external_test external_fail, Schedule (SPresentOutput external_fail)] \<and>
   t_running external_test = 1 \<and>
   stored_get (run_single (example_env [] (\<lambda>i. True)) ''x'' ''f''
       (init_handler\<lparr>stored_tests := [''f'' \<mapsto> [external_test\<lparr>t_running := 0\<rparr>]]\<rparr>)) ''f'' = [external_test] \<and>
   map_sum id (\<lambda>s. stored_get s ''f'')
     (case external_start external_payload []
             (run_single (example_env [] (\<lambda>i. True)) ''x'' ''f''
                (init_handler\<lparr>stored_tests := [''f'' \<mapsto> [external_test\<lparr>t_running := 0\<rparr>]]\<rparr>)) of
        Inl err \<Rightarrow> Inl err
      | Inr s1 \<Rightarrow> external_result external_payload 1 ''fail'' s1) = Inr [external_test]"
proof -
  have T: "Test external_payload = Inr external_test"
    by (auto simp: Test_def external_payload_def external_test_def test_fields_def)
  show ?thesis
    by (simp add: external_start_def external_result_def T register_started_def register_new_test_def
          register_result_def results_add_def call_def schedule_def launch_def stored_get_def
          run_single_def run_tests_def
          clear_external_output_def Let_def external_test_def external_fail_def init_handler_def)
qed

section \<open>Run dispatch and the retry\<close>

lemma event_loop_idle: "pending s = [] \<Longrightarrow> event_loop e n s = Some s"
  by simp

lemma event_loop_step:
  "pending s = w # ws \<Longrightarrow>
   event_loop e (Suc n) s =
     (case exec_work e w (s\<lparr>pending := ws\<rparr>) of
        Inl err \<Rightarrow> event_loop e n (s\<lparr>pending := ws\<rparr>)
      | Inr s' \<Rightarrow> event_loop e n s')"
  by simp

declare event_loop.simps [simp del]

lemma work_turns_pos: "0 < work_turns w"
  by (cases w rule: work_turns.cases) simp_all

lemma sync_started_quiet [simp]:
  "quiet_work (sync_started f i t' w) = quiet_work w"
  "work_turns (sync_started f i t' w) = work_turns w"
  by (cases "(f, i, t', w)" rule: sync_started.cases; simp)+

lemma detach_quiet [simp]:
  "quiet_work (detach f w) = quiet_work w"
  "work_turns (detach f w) = work_turns w"
  by (cases "(f, w)" rule: detach.cases; simp)+

lemma register_result_quiet:
  "pass_launches (register_result t r s) = pass_launches s"
  "reinvocation_calls (register_result t r s) = reinvocation_calls s"
  "pending (register_result t r s) =
     pending s @ (if show_on_run s \<and> r_output r \<noteq> [] then [Scheduled (SPresentOutput r)] else [])"
  by (simp_all add: register_result_def results_add_def call_def schedule_def pass_launches_def
        reinvocation_calls_def Let_def)

lemma present_output_quiet:
  "present_output e r s = Inr s' \<Longrightarrow>
     pass_launches s' = pass_launches s \<and> reinvocation_calls s' = reinvocation_calls s \<and> pending s' = pending s"
  by (auto simp: present_output_def call_def pass_launches_def reinvocation_calls_def
        split: if_splits list.splits option.splits)

lemma drain_quiet:
  "list_all quiet_work (pending s) \<Longrightarrow> sum_list (map work_turns (pending s)) \<le> n \<Longrightarrow>
   \<exists>s'. event_loop e n s = Some s' \<and> pending s' = [] \<and>
        pass_launches s' = pass_launches s \<and> reinvocation_calls s' = reinvocation_calls s"
proof (induction n arbitrary: s)
  case 0
  have "pending s = []"
  proof (cases "pending s")
    case Nil
    then show ?thesis .
  next
    case (Cons w ws)
    then show ?thesis using "0.prems"(2) work_turns_pos [of w] by simp
  qed
  then show ?case by (simp add: event_loop_idle)
next
  case (Suc n)
  show ?case
  proof (cases "pending s")
    case Nil
    then show ?thesis by (simp add: event_loop_idle)
  next
    case (Cons w ws)
    let ?s0 = "s\<lparr>pending := ws\<rparr>"
    from Cons Suc.prems have qw: "quiet_work w" and qws: "list_all quiet_work ws"
      and turns: "work_turns w + sum_list (map work_turns ws) \<le> Suc n" by simp_all
    from qw show ?thesis
    proof (cases w rule: quiet_work.cases)
      case (1 cmd t root job)
      let ?s1 = "register_result t (proc_run e cmd t root) ?s0"
      have p: "list_all quiet_work (pending ?s1)"
        using qws by (simp add: register_result_quiet)
      have m: "sum_list (map work_turns (pending ?s1)) \<le> n"
        using turns 1 by (simp add: register_result_quiet)
      from Suc.IH [OF p m] obtain s' where
        "event_loop e n ?s1 = Some s'" "pending s' = []"
        "pass_launches s' = pass_launches ?s1" "reinvocation_calls s' = reinvocation_calls ?s1"
        by blast
      then show ?thesis using Cons 1
        by (simp add: event_loop_step register_result_quiet)
    next
      case (2 r)
      have p0: "list_all quiet_work (pending ?s0)" using qws by simp
      have m0: "sum_list (map work_turns (pending ?s0)) \<le> n" using turns 2 by simp
      show ?thesis
      proof (cases "present_output e r ?s0")
        case (Inl err)
        from Suc.IH [OF p0 m0] obtain s' where
          "event_loop e n ?s0 = Some s'" "pending s' = []"
          "pass_launches s' = pass_launches ?s0" "reinvocation_calls s' = reinvocation_calls ?s0"
          by blast
        then show ?thesis using Cons 2 Inl
          by (simp add: event_loop_step)
      next
        case (Inr s1)
        from present_output_quiet [OF Inr] have
          q: "pass_launches s1 = pass_launches ?s0" "reinvocation_calls s1 = reinvocation_calls ?s0"
          and pe: "pending s1 = pending ?s0" by simp_all
        from p0 m0 pe have "list_all quiet_work (pending s1)" "sum_list (map work_turns (pending s1)) \<le> n"
          by simp_all
        from Suc.IH [OF this] obtain s' where
          "event_loop e n s1 = Some s'" "pending s' = []"
          "pass_launches s' = pass_launches s1" "reinvocation_calls s' = reinvocation_calls s1"
          by blast
        then show ?thesis using Cons 2 Inr q
          by (simp add: event_loop_step)
      qed
    qed simp_all
  qed
qed

lemma run_tests_loop_pending:
  "list_all quiet_work (pending s) \<Longrightarrow> list_all quiet_work (pending (run_tests_loop e f root xs s))"
proof (induction xs arbitrary: s)
  case Nil
  then show ?case by simp
next
  case (Cons x xs)
  obtain i t where x: "x = (i, t)" by (cases x)
  obtain t' s1 where r: "register_started t s = (t', s1)" by (cases "register_started t s")
  then have p: "pending s1 = pending s"
    using register_started_quiet(3) [of t s] by simp
  have "list_all quiet_work
          (pending (launch (Run (build_cmd e t') t' root) (t_id t')
             (s1\<lparr>stored_tests := (stored_tests s1)(f \<mapsto> (stored_get s1 f)[i := t']),
                 pending := map (sync_started f i t') (pending s1)\<rparr>)))"
    using Cons.prems p by (simp add: launch_def list_all_iff)
  from Cons.IH [OF this] show ?case using x r by (simp add: Let_def)
qed

lemma runner_loop_quiet:
  "filter is_pass_launch (fst (snd (runner_loop e res ts recs))) = [] \<and>
   filter is_reinvocation (fst (snd (runner_loop e res ts recs))) = []"
proof (induction ts arbitrary: recs)
  case Nil
  show ?case by simp
next
  case (Cons t ts)
  obtain t' calls recs' where b: "loop_body e res t recs = (t', calls, recs')"
    by (cases "loop_body e res t recs") auto
  then have c: "filter is_pass_launch calls = [] \<and> filter is_reinvocation calls = []"
    using loop_body_calls [of e res t recs] by (auto split: option.splits if_splits)
  obtain ts' calls' recs'' where l: "runner_loop e res ts recs' = (ts', calls', recs'')"
    by (cases "runner_loop e res ts recs'") auto
  then show ?case using Cons.IH [of recs'] b c by simp
qed

lemma runner_pending:
  "pending (runner e f p recorded cb s) =
     map (detach f) (pending s) @ (case cb of None \<Rightarrow> []
                  | Some (RunAllAfterUpdate g) \<Rightarrow> [Scheduled (SRunAll g False)]
                  | Some (RunNearestAfterUpdate ln g) \<Rightarrow> [Scheduled (SRunNearest ln g False)])"
  by (simp add: runner_def runner_notify_def runner_tests_def runner_commit_def call_def Let_def invoke_pending
        split: prod.splits option.splits callback.splits)

lemma clear_quiet:
  "filter is_pass_launch (map ProcessClear ts) = []" "filter is_reinvocation (map ProcessClear ts) = []"
  by (induction ts) simp_all

lemma runner_quiet:
  "pass_launches (runner e f p recorded cb s) = pass_launches s"
  "reinvocation_calls (runner e f p recorded cb s) = reinvocation_calls s @ callback_calls cb"
  by (simp_all add: pass_launches_def reinvocation_calls_def runner_log runner_loop_quiet clear_quiet
        callback_calls_def split: option.splits callback.splits)

lemma update_positions_empty:
  assumes "stored_get s f = []"
  shows "update_positions e f cb s =
     (case usable_patterns e f of
        None \<Rightarrow> s
      | Some ps \<Rightarrow> launch (Runner f ps [] cb (Some [])) ''update_positions''
          (call (SetBufVarSortedTests f) (call (SetBufVarTests f) (call (SetBufVarResults f) s))))"
  using assms
  by (simp add: update_positions_def usable_patterns_def recorded_tests_def recorded_positions_def
        recorded_refs_def Let_def split: sum.splits option.splits)

lemma run_tests_quiet:
  "list_all quiet_work (pending s) \<Longrightarrow>
   list_all quiet_work (pending (run_tests e f xs s)) \<and>
   pass_launches (run_tests e f xs s) = pass_launches s \<and>
   reinvocation_calls (run_tests e f xs s) = reinvocation_calls s"
  by (simp add: run_tests_def run_tests_loop_quiet run_tests_loop_pending)

lemma run_all_flag_cleared:
  "list_all quiet_work (pending s) \<Longrightarrow>
   list_all quiet_work (pending (run_all e f False s)) \<and>
   pass_launches (run_all e f False s) = pass_launches s \<and>
   reinvocation_calls (run_all e f False s) = reinvocation_calls s"
  by (simp add: run_all_def Let_def run_tests_quiet)

lemma run_nearest_flag_cleared:
  "list_all quiet_work (pending s) \<Longrightarrow>
   list_all quiet_work (pending (run_nearest e ln f False s)) \<and>
   pass_launches (run_nearest e ln f False s) = pass_launches s \<and>
   reinvocation_calls (run_nearest e ln f False s) = reinvocation_calls s"
  by (simp add: run_nearest_def Let_def run_tests_quiet split: option.splits)

lemma invoked_flag_cleared:
  "list_all quiet_work (pending s) \<Longrightarrow>
   \<exists>w. callback_calls (Some cb) = [Schedule w] \<and>
     (\<exists>s'. exec_work e (Scheduled w) s = Inr s' \<and> list_all quiet_work (pending s') \<and>
        pass_launches s' = pass_launches s \<and> reinvocation_calls s' = reinvocation_calls s)"
  by (cases cb) (simp_all add: callback_calls_def run_all_flag_cleared run_nearest_flag_cleared)


text \<open>
  On a handler with no work pending and no tests for the file, the event loop comes to
  rest after \<open>update_positions\<close> with a callback: one pass has been launched and one
  re-invocation scheduled when the file has patterns, none otherwise.
\<close>

lemma retry_comes_to_rest:
  assumes "stored_get s f = []" and "pending s = []"
  shows "\<exists>n s'. event_loop e n (update_positions e f (Some cb) s) = Some s' \<and> pending s' = [] \<and>
           pass_launches s' = pass_launches s @
             (case usable_patterns e f of None \<Rightarrow> []
              | Some ps \<Rightarrow> [Launch (Runner f ps [] (Some cb) (Some [])) ''update_positions'']) \<and>
           reinvocation_calls s' = reinvocation_calls s @
             (case usable_patterns e f of None \<Rightarrow> [] | Some ps \<Rightarrow> callback_calls (Some cb))"
proof (cases "usable_patterns e f")
  case None
  then have "update_positions e f (Some cb) s = s"
    using assms(1) by (simp add: update_positions_empty)
  then show ?thesis using None assms(2) event_loop_idle [of s e 0] by auto
next
  case (Some ps)
  let ?sB = "call (SetBufVarSortedTests f) (call (SetBufVarTests f) (call (SetBufVarResults f) s))"
  let ?s0 = "launch (Runner f ps [] (Some cb) (Some [])) ''update_positions'' ?sB"
  have u: "update_positions e f (Some cb) s = ?s0"
    using assms(1) Some by (simp add: update_positions_empty)
  have p0: "pending ?s0 = [Launched (Runner f ps [] (Some cb) (Some [])) ''update_positions'']"
    using assms(2) by (simp add: launch_def call_def)
  have l0: "pass_launches ?s0 = pass_launches s @ [Launch (Runner f ps [] (Some cb) (Some [])) ''update_positions'']"
    and r0: "reinvocation_calls ?s0 = reinvocation_calls s"
    by (simp_all add: launch_def call_def pass_launches_def reinvocation_calls_def)
  let ?s1 = "runner e f ps [] (Some cb) (?s0\<lparr>pending := []\<rparr>)"
  have step1: "event_loop e (Suc n) ?s0 = event_loop e n ?s1" for n
    using p0 by (simp add: event_loop_step)
  have l1: "pass_launches ?s1 = pass_launches ?s0"
    and r1: "reinvocation_calls ?s1 = reinvocation_calls ?s0 @ callback_calls (Some cb)"
    by (simp_all add: runner_quiet)
  obtain w s2 where w: "callback_calls (Some cb) = [Schedule w]"
    and x: "exec_work e (Scheduled w) (?s1\<lparr>pending := []\<rparr>) = Inr s2"
    and q2: "list_all quiet_work (pending s2)"
    and l2: "pass_launches s2 = pass_launches (?s1\<lparr>pending := []\<rparr>)"
    and r2: "reinvocation_calls s2 = reinvocation_calls (?s1\<lparr>pending := []\<rparr>)"
    using invoked_flag_cleared [of "?s1\<lparr>pending := []\<rparr>" cb e] by auto
  have p1: "pending ?s1 = [Scheduled w]"
    using w by (cases cb) (simp_all add: runner_pending callback_calls_def)
  have step2: "event_loop e (Suc n) ?s1 = event_loop e n s2" for n
    using p1 x by (simp add: event_loop_step)
  from drain_quiet [OF q2 order_refl, of e] obtain s' where
    d: "event_loop e (sum_list (map work_turns (pending s2))) s2 = Some s'" "pending s' = []"
       "pass_launches s' = pass_launches s2" "reinvocation_calls s' = reinvocation_calls s2"
    by blast
  have "event_loop e (Suc (Suc (sum_list (map work_turns (pending s2))))) (update_positions e f (Some cb) s) = Some s'"
    using u step1 step2 d(1) by simp
  moreover have "pass_launches s' = pass_launches s @ [Launch (Runner f ps [] (Some cb) (Some [])) ''update_positions'']"
    using d(3) l2 l1 l0 by simp
  moreover have "reinvocation_calls s' = reinvocation_calls s @ callback_calls (Some cb)"
    using d(4) r2 r1 r0 by simp
  ultimately show ?thesis using Some d(2) by auto
qed

lemma first_invocation:
  assumes "stored_get s f = []"
  shows "run_all e f True s = update_positions e f (Some (RunAllAfterUpdate f)) s"
    and "run_nearest e ln f True s = update_positions e f (Some (RunNearestAfterUpdate ln f)) s"
  using assms by (simp_all add: run_all_def run_nearest_def)

lemma update_positions_empty_effect:
  assumes "stored_get s f = []" and "usable_patterns e f = Some ps"
  shows "pending (update_positions e f cb s) =
           pending s @ [Launched (Runner f ps [] cb (Some [])) ''update_positions'']"
    and "pass_launches (update_positions e f cb s) =
           pass_launches s @ [Launch (Runner f ps [] cb (Some [])) ''update_positions'']"
    and "reinvocation_calls (update_positions e f cb s) = reinvocation_calls s"
  using assms
  by (simp_all add: update_positions_empty launch_def call_def pass_launches_def reinvocation_calls_def)

text \<open>
  C4 (amended). Let the snapshot of a file hold no tests. If the file is on disk and
  has patterns, \<open>run_all\<close> and \<open>run_nearest\<close> launch exactly one reconciliation pass
  and schedule nothing themselves. That pass, in whatever state \<open>s1\<close> it runs, launches
  no pass and schedules exactly one re-invocation, with \<open>update_empty\<close> false. That
  re-invocation, in whatever state \<open>s2\<close> it runs, launches no pass and schedules no
  re-invocation, and it leaves the handler unchanged when the snapshot is still empty.
  If the file is not on disk or has no patterns, \<open>run_all\<close> and \<open>run_nearest\<close>
  leave the handler unchanged: no pass is launched and there is no re-invocation.
\<close>

theorem dispatch_retry_bound:
  assumes "stored_get s f = []"
  shows
   "(case usable_patterns e f of
       None \<Rightarrow> run_all e f True s = s \<and> run_nearest e ln f True s = s
     | Some ps \<Rightarrow>
         pending (run_all e f True s) =
           pending s @ [Launched (Runner f ps [] (Some (RunAllAfterUpdate f)) (Some [])) ''update_positions''] \<and>
         pass_launches (run_all e f True s) =
           pass_launches s @ [Launch (Runner f ps [] (Some (RunAllAfterUpdate f)) (Some [])) ''update_positions''] \<and>
         reinvocation_calls (run_all e f True s) = reinvocation_calls s \<and>
         pending (run_nearest e ln f True s) =
           pending s @ [Launched (Runner f ps [] (Some (RunNearestAfterUpdate ln f)) (Some [])) ''update_positions''] \<and>
         pass_launches (run_nearest e ln f True s) =
           pass_launches s @ [Launch (Runner f ps [] (Some (RunNearestAfterUpdate ln f)) (Some [])) ''update_positions''] \<and>
         reinvocation_calls (run_nearest e ln f True s) = reinvocation_calls s) \<and>
    exec_work e (Launched (Runner f ps' r (Some (RunAllAfterUpdate f)) a) job) s1 =
      Inr (runner e f ps' r (Some (RunAllAfterUpdate f)) s1) \<and>
    pass_launches (runner e f ps' r (Some (RunAllAfterUpdate f)) s1) = pass_launches s1 \<and>
    reinvocation_calls (runner e f ps' r (Some (RunAllAfterUpdate f)) s1) =
      reinvocation_calls s1 @ [Schedule (SRunAll f False)] \<and>
    pending (runner e f ps' r (Some (RunAllAfterUpdate f)) s1) =
      map (detach f) (pending s1) @ [Scheduled (SRunAll f False)] \<and>
    exec_work e (Launched (Runner f ps' r (Some (RunNearestAfterUpdate ln f)) a) job) s1 =
      Inr (runner e f ps' r (Some (RunNearestAfterUpdate ln f)) s1) \<and>
    pass_launches (runner e f ps' r (Some (RunNearestAfterUpdate ln f)) s1) = pass_launches s1 \<and>
    reinvocation_calls (runner e f ps' r (Some (RunNearestAfterUpdate ln f)) s1) =
      reinvocation_calls s1 @ [Schedule (SRunNearest ln f False)] \<and>
    pending (runner e f ps' r (Some (RunNearestAfterUpdate ln f)) s1) =
      map (detach f) (pending s1) @ [Scheduled (SRunNearest ln f False)] \<and>
    exec_work e (Scheduled (SRunAll f False)) s2 = Inr (run_all e f False s2) \<and>
    pass_launches (run_all e f False s2) = pass_launches s2 \<and>
    reinvocation_calls (run_all e f False s2) = reinvocation_calls s2 \<and>
    exec_work e (Scheduled (SRunNearest ln f False)) s2 = Inr (run_nearest e ln f False s2) \<and>
    pass_launches (run_nearest e ln f False s2) = pass_launches s2 \<and>
    reinvocation_calls (run_nearest e ln f False s2) = reinvocation_calls s2 \<and>
    (stored_get s2 f = [] \<longrightarrow> run_all e f False s2 = s2 \<and> run_nearest e ln f False s2 = s2)"
proof (intro conjI impI)
  show "case usable_patterns e f of
       None \<Rightarrow> run_all e f True s = s \<and> run_nearest e ln f True s = s
     | Some ps \<Rightarrow>
         pending (run_all e f True s) =
           pending s @ [Launched (Runner f ps [] (Some (RunAllAfterUpdate f)) (Some [])) ''update_positions''] \<and>
         pass_launches (run_all e f True s) =
           pass_launches s @ [Launch (Runner f ps [] (Some (RunAllAfterUpdate f)) (Some [])) ''update_positions''] \<and>
         reinvocation_calls (run_all e f True s) = reinvocation_calls s \<and>
         pending (run_nearest e ln f True s) =
           pending s @ [Launched (Runner f ps [] (Some (RunNearestAfterUpdate ln f)) (Some [])) ''update_positions''] \<and>
         pass_launches (run_nearest e ln f True s) =
           pass_launches s @ [Launch (Runner f ps [] (Some (RunNearestAfterUpdate ln f)) (Some [])) ''update_positions''] \<and>
         reinvocation_calls (run_nearest e ln f True s) = reinvocation_calls s"
  proof (cases "usable_patterns e f")
    case None
    then show ?thesis
      using assms by (simp add: first_invocation update_positions_empty)
  next
    case (Some ps)
    then show ?thesis
      by (simp add: first_invocation [OF assms] update_positions_empty_effect [OF assms Some])
  qed
  show "exec_work e (Launched (Runner f ps' r (Some (RunAllAfterUpdate f)) a) job) s1 =
      Inr (runner e f ps' r (Some (RunAllAfterUpdate f)) s1)"
    and "exec_work e (Launched (Runner f ps' r (Some (RunNearestAfterUpdate ln f)) a) job) s1 =
      Inr (runner e f ps' r (Some (RunNearestAfterUpdate ln f)) s1)"
    and "exec_work e (Scheduled (SRunAll f False)) s2 = Inr (run_all e f False s2)"
    and "exec_work e (Scheduled (SRunNearest ln f False)) s2 = Inr (run_nearest e ln f False s2)"
    by simp_all
  show "pass_launches (runner e f ps' r (Some (RunAllAfterUpdate f)) s1) = pass_launches s1"
    and "pass_launches (runner e f ps' r (Some (RunNearestAfterUpdate ln f)) s1) = pass_launches s1"
    by (simp_all add: runner_quiet)
  show "reinvocation_calls (runner e f ps' r (Some (RunAllAfterUpdate f)) s1) =
      reinvocation_calls s1 @ [Schedule (SRunAll f False)]"
    and "reinvocation_calls (runner e f ps' r (Some (RunNearestAfterUpdate ln f)) s1) =
      reinvocation_calls s1 @ [Schedule (SRunNearest ln f False)]"
    by (simp_all add: runner_quiet callback_calls_def)
  show "pending (runner e f ps' r (Some (RunAllAfterUpdate f)) s1) =
      map (detach f) (pending s1) @ [Scheduled (SRunAll f False)]"
    and "pending (runner e f ps' r (Some (RunNearestAfterUpdate ln f)) s1) =
      map (detach f) (pending s1) @ [Scheduled (SRunNearest ln f False)]"
    by (simp_all add: runner_pending)
  show "pass_launches (run_all e f False s2) = pass_launches s2"
    and "reinvocation_calls (run_all e f False s2) = reinvocation_calls s2"
    by (simp_all add: run_all_def Let_def run_tests_def run_tests_loop_quiet)
  show "pass_launches (run_nearest e ln f False s2) = pass_launches s2"
    and "reinvocation_calls (run_nearest e ln f False s2) = reinvocation_calls s2"
    by (simp_all add: run_nearest_def Let_def run_tests_def run_tests_loop_quiet
          del: run_tests_loop.simps split: option.splits)
  assume "stored_get s2 f = []"
  then show "run_all e f False s2 = s2" and "run_nearest e ln f False s2 = s2"
    by (simp_all add: run_all_def run_nearest_def nearest_index_def split: option.splits)
qed

text \<open>
  C4 as stated fails for a file that is not on disk: \<open>run_all\<close> and \<open>run_nearest\<close>
  leave the handler as it is, the loop has nothing to run, and no re-invocation is ever
  scheduled.
\<close>

theorem dispatch_retry_bound_counterexample:
  "stored_get init_handler ''a_test.go'' = [] \<and>
   run_all no_file_env ''a_test.go'' True init_handler = init_handler \<and>
   run_nearest no_file_env 3 ''a_test.go'' True init_handler = init_handler \<and>
   event_loop no_file_env 5 init_handler = Some init_handler \<and>
   pass_launches init_handler = [] \<and> reinvocation_calls init_handler = []"
  by (simp add: run_all_def run_nearest_def update_positions_def stored_get_def pass_launches_def
        reinvocation_calls_def event_loop_idle no_file_env_def example_env_def init_handler_def)

text \<open>
  A handler without tests, a file with patterns, and the re-invocations on the empty
  snapshot.
\<close>

theorem dispatch_retry_bound_witness:
  "stored_get init_handler ''a_test.go'' = [] \<and>
   pending (run_all (example_env rescanned_tests (\<lambda>i. False)) ''a_test.go'' True init_handler) =
     [Launched (Runner ''a_test.go'' go_patterns [] (Some (RunAllAfterUpdate ''a_test.go'')) (Some [])) ''update_positions''] \<and>
   pass_launches (run_all (example_env rescanned_tests (\<lambda>i. False)) ''a_test.go'' True init_handler) =
     [Launch (Runner ''a_test.go'' go_patterns [] (Some (RunAllAfterUpdate ''a_test.go'')) (Some [])) ''update_positions''] \<and>
   pending (run_nearest (example_env rescanned_tests (\<lambda>i. False)) 3 ''a_test.go'' True init_handler) =
     [Launched (Runner ''a_test.go'' go_patterns [] (Some (RunNearestAfterUpdate 3 ''a_test.go'')) (Some [])) ''update_positions''] \<and>
   reinvocation_calls (runner (example_env rescanned_tests (\<lambda>i. False)) ''a_test.go'' go_patterns []
       (Some (RunAllAfterUpdate ''a_test.go'')) init_handler) = [Schedule (SRunAll ''a_test.go'' False)] \<and>
   pending (runner (example_env rescanned_tests (\<lambda>i. False)) ''a_test.go'' go_patterns []
       (Some (RunNearestAfterUpdate 3 ''a_test.go'')) init_handler) = [Scheduled (SRunNearest 3 ''a_test.go'' False)] \<and>
   run_all (example_env rescanned_tests (\<lambda>i. False)) ''a_test.go'' False init_handler = init_handler \<and>
   run_nearest (example_env rescanned_tests (\<lambda>i. False)) 3 ''a_test.go'' False init_handler = init_handler"
proof -
  let ?e = "example_env rescanned_tests (\<lambda>i. False)"
  have 1: "stored_get init_handler ''a_test.go'' = []" and 2: "pending init_handler = []"
    and 3: "pass_launches init_handler = []" and 4: "reinvocation_calls init_handler = []"
    by (simp_all add: stored_get_def init_handler_def pass_launches_def reinvocation_calls_def)
  have u: "usable_patterns ?e ''a_test.go'' = Some go_patterns"
    by (simp add: usable_patterns_def example_env_def go_patterns_def)
  note th = dispatch_retry_bound [OF 1, where e = ?e and ln = 3 and ps' = go_patterns and r = "[]"
      and a = "Some []" and job = "''update_positions''" and ?s1.0 = init_handler and ?s2.0 = init_handler]
  from th 1 show ?thesis by (simp add: u 2 3 4)
qed

end
